theory Spec2Isabelle
  imports Main "HOL-Library.Sublist"
begin

section \<open>The kilo text editor (src/kilo.c): data model\<close>

text \<open>
  The C program keeps one global \<^verbatim>\<open>struct editorConfig E\<close>. The model passes it
  explicitly. C \<^verbatim>\<open>int\<close> values are HOL integers (no line, file or terminal is
  large enough for an \<^verbatim>\<open>int\<close> to overflow); a byte is a \<^typ>\<open>char\<close>.

  A memory access the C code performs out of range (undefined behaviour) is the value
  \<open>None\<close> in the model.
\<close>

definition KILO_TAB_STOP :: int where
  "KILO_TAB_STOP = 8"

definition KILO_QUIT_TIMES :: int where
  "KILO_QUIT_TIMES = 3"

text \<open>
  \<^verbatim>\<open>typedef struct erow { int size; int rsize; char *chars; char *render; } erow;\<close>
  The buffer \<^verbatim>\<open>chars\<close> holds \<^verbatim>\<open>size\<close> bytes followed by a NUL byte, the buffer
  \<^verbatim>\<open>render\<close> holds \<^verbatim>\<open>rsize\<close> bytes followed by a NUL byte. The model keeps the
  bytes before the NUL as a list, and \<^verbatim>\<open>size\<close>, \<^verbatim>\<open>rsize\<close> are the lengths.
\<close>

record erow =
  chars :: string
  render :: string

definition row_size :: "erow \<Rightarrow> int" where
  "row_size r = int (length (chars r))"

definition row_rsize :: "erow \<Rightarrow> int" where
  "row_rsize r = int (length (render r))"

text \<open>Reading \<^verbatim>\<open>row->chars[j]\<close>: the bytes, then the NUL terminator, nothing beyond.\<close>

definition chars_at :: "erow \<Rightarrow> int \<Rightarrow> char option" where
  "chars_at r j =
     (if 0 \<le> j \<and> j < row_size r then Some (chars r ! nat j)
      else if j = row_size r then Some (CHR 0x00)
      else None)"

subsection \<open>editorRowCxtoRx\<close>

text \<open>
  \<^verbatim>\<open>
  int rx = 0;
  for (int j = 0; j < cx; j++) {
      if (row->chars[j] == '\t') rx += (KILO_TAB_STOP - 1) - (rx % KILO_TAB_STOP);
      rx++;
  }
  return rx;
  \<close>
  The parameter \<^verbatim>\<open>cx\<close> is \<open>n\<close> and the accumulator \<^verbatim>\<open>rx\<close> is \<open>acc\<close> below (the names
  \<open>cx\<close> and \<open>rx\<close> are fields of the editor state). The accumulator is never negative, so
  C's \<^verbatim>\<open>%\<close> is \<open>mod\<close>.
\<close>

function CxtoRx_loop :: "erow \<Rightarrow> int \<Rightarrow> int \<Rightarrow> int \<Rightarrow> int option" where
  "CxtoRx_loop r n j acc =
     (if j < n then
        (case chars_at r j of
           None \<Rightarrow> None
         | Some c \<Rightarrow>
             CxtoRx_loop r n (j + 1)
               ((if c = CHR 0x09 then acc + ((KILO_TAB_STOP - 1) - (acc mod KILO_TAB_STOP)) else acc)
                + 1))
      else Some acc)"
  by pat_completeness auto
termination
  by (relation "measure (\<lambda>(r, n, j, acc). nat (n - j))") simp_all

declare CxtoRx_loop.simps [simp del]

definition editorRowCxtoRx :: "erow \<Rightarrow> int \<Rightarrow> int option" where
  "editorRowCxtoRx r n = CxtoRx_loop r n 0 0"

subsection \<open>editorUpdateRow\<close>

text \<open>
  The inner loop \<^verbatim>\<open>while (idx % KILO_TAB_STOP != 0) row->render[idx++] = ' ';\<close>
  where \<open>idx\<close> is the number of bytes written so far.
\<close>

function pad_to_tab_stop :: "string \<Rightarrow> string" where
  "pad_to_tab_stop out =
     (if int (length out) mod KILO_TAB_STOP \<noteq> 0 then pad_to_tab_stop (out @ [CHR '' ''])
      else out)"
  by pat_completeness auto
termination
proof (relation "measure (\<lambda>out. nat ((- int (length out)) mod 8))")
  show "wf (measure (\<lambda>out. nat ((- int (length out)) mod 8)))"
    by simp
next
  fix out :: string
  assume "int (length out) mod KILO_TAB_STOP \<noteq> 0"
  then have "int (length out) mod 8 \<noteq> 0"
    by (simp add: KILO_TAB_STOP_def)
  then have "(- 1 - int (length out)) mod 8 < (- int (length out)) mod 8
      \<and> 0 < (- int (length out)) mod 8"
    by presburger
  then show "(out @ [CHR '' ''], out) \<in> measure (\<lambda>out. nat ((- int (length out)) mod 8))"
    by simp
qed

declare pad_to_tab_stop.simps [simp del]

text \<open>
  The outer loop over \<^verbatim>\<open>j = 0 .. size - 1\<close>, reading \<^verbatim>\<open>chars[j]\<close> in order:
  \<^verbatim>\<open>
  if (row->chars[j] == '\t') {
      row->render[idx++] = ' ';
      while (idx % KILO_TAB_STOP != 0) row->render[idx++] = ' ';
  } else {
      row->render[idx++] = row->chars[j];
  }
  \<close>
\<close>

fun render_loop :: "string \<Rightarrow> string \<Rightarrow> string" where
  "render_loop [] out = out"
| "render_loop (c # cs) out =
     render_loop cs (if c = CHR 0x09 then pad_to_tab_stop (out @ [CHR '' '']) else out @ [c])"

definition editorUpdateRow :: "erow \<Rightarrow> erow" where
  "editorUpdateRow r = r\<lparr>render := render_loop (chars r) []\<rparr>"

section \<open>The editor state\<close>

text \<open>
  The status message is a formatted string in the source; the model keeps which call of
  \<^verbatim>\<open>editorSetStatusMessage\<close> wrote it, with the argument of its format.
\<close>

datatype status_message =
    MsgNone                 \<comment> \<open>\<^verbatim>\<open>""\<close>\<close>
  | MsgHelp                 \<comment> \<open>\<^verbatim>\<open>"HELP: Ctrl-Q to quit | Ctrl S to save"\<close>\<close>
  | MsgPrompt string        \<comment> \<open>\<^verbatim>\<open>"Save as: %s (ESC to cancel)"\<close>\<close>
  | MsgSaveAborted          \<comment> \<open>\<^verbatim>\<open>"Save aborted"\<close>\<close>
  | MsgBytesWritten int     \<comment> \<open>\<^verbatim>\<open>"%d bytes written to disk"\<close>\<close>
  | MsgCantSave             \<comment> \<open>\<^verbatim>\<open>"Can't save! I/O error: %s"\<close>\<close>
  | MsgQuitWarning int
      \<comment> \<open>\<^verbatim>\<open>"WARNING! File has unsaved changes. Press Ctrl Q %d more times to quit."\<close>\<close>

text \<open>
  \<^verbatim>\<open>struct editorConfig\<close>, without the terminal attributes and the time stamp of the
  message. \<^verbatim>\<open>numrows\<close> is the length of the array \<^verbatim>\<open>row\<close>. The field \<open>quit_times\<close> is
  the \<^verbatim>\<open>static int quit_times\<close> of \<^verbatim>\<open>editorProcessKeypress\<close>.
\<close>

record editorConfig =
  cx :: int
  cy :: int
  rx :: int
  rowoff :: int
  coloff :: int
  screenrows :: int
  screencols :: int
  row :: "erow list"
  dirty :: int
  filename :: "string option"
  statusmsg :: status_message
  quit_times :: int

definition numrows :: "editorConfig \<Rightarrow> int" where
  "numrows E = int (length (row E))"

text \<open>Reading \<^verbatim>\<open>E.row[i]\<close>; a pointer \<^verbatim>\<open>&E.row[i]\<close> is the index \<open>i\<close>.\<close>

definition row_at :: "editorConfig \<Rightarrow> int \<Rightarrow> erow option" where
  "row_at E i = (if 0 \<le> i \<and> i < numrows E then Some (row E ! nat i) else None)"

section \<open>Row operations\<close>

text \<open>
  \<^verbatim>\<open>
  void editorInsertRow(int at, char *s, size_t len) {
      if (at < 0 || at > E.numrows) return;
      E.row = realloc(E.row, sizeof(erow) * (E.numrows + 1));
      memmove(&E.row[at + 1], &E.row[at], sizeof(erow) * (E.numrows - at));
      E.row[at].size = len; E.row[at].chars = malloc(len + 1);
      memcpy(E.row[at].chars, s, len); E.row[at].chars[len] = '\0';
      E.row[at].rsize = 0; E.row[at].render = NULL;
      editorUpdateRow(&E.row[at]);
      E.numrows++; E.dirty++;
  }
  \<close>
  The argument \<open>s\<close> of the model is the \<^verbatim>\<open>len\<close> bytes at \<^verbatim>\<open>s\<close>.
\<close>

definition editorInsertRow :: "int \<Rightarrow> string \<Rightarrow> editorConfig \<Rightarrow> editorConfig" where
  "editorInsertRow at s E =
     (if at < 0 \<or> at > numrows E then E
      else E\<lparr>row := take (nat at) (row E)
                    @ [editorUpdateRow \<lparr>chars = s, render = []\<rparr>]
                    @ drop (nat at) (row E),
             dirty := dirty E + 1\<rparr>)"

text \<open>
  \<^verbatim>\<open>
  void editorDelRow(int at) {
      if (at < 0 || at >= E.numrows) return;
      editorFreeRow(&E.row[at]);
      memmove(&E.row[at], &E.row[at + 1], sizeof(erow) * (E.numrows - at - 1));
      E.numrows--; E.dirty++;
  }
  \<close>
\<close>

definition editorDelRow :: "int \<Rightarrow> editorConfig \<Rightarrow> editorConfig" where
  "editorDelRow at E =
     (if at < 0 \<or> at \<ge> numrows E then E
      else E\<lparr>row := take (nat at) (row E) @ drop (nat at + 1) (row E),
             dirty := dirty E + 1\<rparr>)"

text \<open>
  \<^verbatim>\<open>
  void editorRowInsertChar(erow *row, int at, int c) {
      if (at < 0 || at > row->size) at = row->size;
      row->chars = realloc(row->chars, row->size + 2);
      memmove(&row->chars[at + 1], &row->chars[at], row->size - at + 1);
      row->size++; row->chars[at] = c;
      editorUpdateRow(row);
      E.dirty++;
  }
  \<close>
  The row pointer is the index \<open>ri\<close>; the assignment \<^verbatim>\<open>row->chars[at] = c\<close> converts the
  \<^verbatim>\<open>int\<close> to a byte.
\<close>

definition editorRowInsertChar :: "int \<Rightarrow> int \<Rightarrow> int \<Rightarrow> editorConfig \<Rightarrow> editorConfig option" where
  "editorRowInsertChar ri at c E =
     (case row_at E ri of
        None \<Rightarrow> None
      | Some r \<Rightarrow>
          let at' = (if at < 0 \<or> at > row_size r then row_size r else at);
              r' = editorUpdateRow
                     (r\<lparr>chars := take (nat at') (chars r) @ [char_of c] @ drop (nat at') (chars r)\<rparr>)
          in Some (E\<lparr>row := (row E)[nat ri := r'], dirty := dirty E + 1\<rparr>))"

text \<open>
  \<^verbatim>\<open>
  void editorRowAppendString(erow *row, char *s, size_t len) {
      row->chars = realloc(row->chars, row->size + len + 1);
      memcpy(&row->chars[row->size], s, len);
      row->size += len; row->chars[row->size] = '\0';
      editorUpdateRow(row);
      E.dirty++;
  }
  \<close>
\<close>

definition editorRowAppendString :: "int \<Rightarrow> string \<Rightarrow> editorConfig \<Rightarrow> editorConfig option" where
  "editorRowAppendString ri s E =
     (case row_at E ri of
        None \<Rightarrow> None
      | Some r \<Rightarrow>
          let r' = editorUpdateRow (r\<lparr>chars := chars r @ s\<rparr>)
          in Some (E\<lparr>row := (row E)[nat ri := r'], dirty := dirty E + 1\<rparr>))"

text \<open>
  \<^verbatim>\<open>
  void editorRowDelChar(erow *row, int at) {
      if (at < 0 || at >= row->size) return;
      memmove(&row->chars[at], &row->chars[at + 1], row->size - at);
      row->size--;
      editorUpdateRow(row);
      E.dirty++;
  }
  \<close>
\<close>

definition editorRowDelChar :: "int \<Rightarrow> int \<Rightarrow> editorConfig \<Rightarrow> editorConfig option" where
  "editorRowDelChar ri at E =
     (case row_at E ri of
        None \<Rightarrow> None
      | Some r \<Rightarrow>
          if at < 0 \<or> at \<ge> row_size r then Some E
          else
            let r' = editorUpdateRow
                       (r\<lparr>chars := take (nat at) (chars r) @ drop (nat at + 1) (chars r)\<rparr>)
            in Some (E\<lparr>row := (row E)[nat ri := r'], dirty := dirty E + 1\<rparr>))"

section \<open>Editor operations\<close>

text \<open>
  \<^verbatim>\<open>
  void editorInsertChar(int c) {
      if (E.cy == E.numrows) editorInsertRow(E.numrows, "", 0);
      editorRowInsertChar(&E.row[E.cy], E.cx, c);
      E.cx++;
  }
  \<close>
\<close>

definition editorInsertChar :: "int \<Rightarrow> editorConfig \<Rightarrow> editorConfig option" where
  "editorInsertChar c E =
     (let E1 = (if cy E = numrows E then editorInsertRow (numrows E) [] E else E)
      in case editorRowInsertChar (cy E1) (cx E1) c E1 of
           None \<Rightarrow> None
         | Some E2 \<Rightarrow> Some (E2\<lparr>cx := cx E2 + 1\<rparr>))"

text \<open>
  \<^verbatim>\<open>
  void editorInsertNewline() {
      if (E.cx == 0) {
          editorInsertRow(E.cy, "", 0);
      } else {
          erow *row = &E.row[E.cy];
          editorInsertRow(E.cy + 1, &row->chars[E.cx], row->size - E.cx);
          row = &E.row[E.cy];
          row->size = E.cx;
          row->chars[row->size] = '\0';
          editorUpdateRow(row);
      }
      E.cy++;
      E.cx = 0;
  }
  \<close>
  In the second branch the bytes copied are \<^verbatim>\<open>row->size - E.cx\<close> bytes from
  \<^verbatim>\<open>&row->chars[E.cx]\<close>: outside \<open>0 \<le> cx \<le> size\<close> the copy leaves the buffer.
\<close>

definition editorInsertNewline :: "editorConfig \<Rightarrow> editorConfig option" where
  "editorInsertNewline E =
     (if cx E = 0 then
        (let E1 = editorInsertRow (cy E) [] E in Some (E1\<lparr>cy := cy E1 + 1, cx := 0\<rparr>))
      else
        (case row_at E (cy E) of
           None \<Rightarrow> None
         | Some r \<Rightarrow>
             if cx E < 0 \<or> cx E > row_size r then None
             else
               let E1 = editorInsertRow (cy E + 1) (drop (nat (cx E)) (chars r)) E
               in (case row_at E1 (cy E1) of
                     None \<Rightarrow> None
                   | Some r1 \<Rightarrow>
                       let r2 = editorUpdateRow (r1\<lparr>chars := take (nat (cx E1)) (chars r1)\<rparr>);
                           E2 = E1\<lparr>row := (row E1)[nat (cy E1) := r2]\<rparr>
                       in Some (E2\<lparr>cy := cy E2 + 1, cx := 0\<rparr>))))"

text \<open>
  \<^verbatim>\<open>
  void editorDeleteChar() {
      if (E.cy == E.numrows) return;
      if (E.cx == 0 && E.cy == 0) return;
      erow *row = &E.row[E.cy];
      if (E.cx > 0) {
          editorRowDelChar(row, E.cx - 1);
          E.cx--;
      } else {
          E.cx = E.row[E.cy - 1].size;
          editorRowAppendString(&E.row[E.cy - 1], row->chars, row->size);
          editorDelRow(E.cy);
          E.cy--;
      }
  }
  \<close>
\<close>

definition editorDeleteChar :: "editorConfig \<Rightarrow> editorConfig option" where
  "editorDeleteChar E =
     (if cy E = numrows E then Some E
      else if cx E = 0 \<and> cy E = 0 then Some E
      else if cx E > 0 then
        (case editorRowDelChar (cy E) (cx E - 1) E of
           None \<Rightarrow> None
         | Some E1 \<Rightarrow> Some (E1\<lparr>cx := cx E1 - 1\<rparr>))
      else
        (case row_at E (cy E - 1) of
           None \<Rightarrow> None
         | Some p \<Rightarrow>
             (case row_at E (cy E) of
                None \<Rightarrow> None
              | Some r \<Rightarrow>
                  let E1 = E\<lparr>cx := row_size p\<rparr>
                  in (case editorRowAppendString (cy E1 - 1) (chars r) E1 of
                        None \<Rightarrow> None
                      | Some E2 \<Rightarrow>
                          let E3 = editorDelRow (cy E2) E2
                          in Some (E3\<lparr>cy := cy E3 - 1\<rparr>)))))"

section \<open>File input and output\<close>

text \<open>
  \<^verbatim>\<open>
  char *editorRowsToString(int *buflen) {
      int totlen = 0;
      for (int j = 0; j < E.numrows; j++) totlen += E.row[j].size + 1;
      *buflen = totlen;
      char *buf = malloc(totlen);
      char *p = buf;
      for (int j = 0; j < E.numrows; j++) {
          memcpy(p, E.row[j].chars, E.row[j].size);
          p += E.row[j].size;
          *p = '\n';
          p++;
      }
      return buf;
  }
  \<close>
  Both loops visit the rows in order; the model returns the buffer and \<^verbatim>\<open>*buflen\<close>.
\<close>

fun rows_totlen :: "erow list \<Rightarrow> int \<Rightarrow> int" where
  "rows_totlen [] totlen = totlen"
| "rows_totlen (r # rs) totlen = rows_totlen rs (totlen + (row_size r + 1))"

fun rows_copy :: "erow list \<Rightarrow> string \<Rightarrow> string" where
  "rows_copy [] buf = buf"
| "rows_copy (r # rs) buf = rows_copy rs (buf @ chars r @ [CHR 0x0A])"

definition editorRowsToString :: "editorConfig \<Rightarrow> string \<times> int" where
  "editorRowsToString E = (rows_copy (row E) [], rows_totlen (row E) 0)"

text \<open>
  The C library's \<^verbatim>\<open>getline\<close>, called until it returns \<open>-1\<close>, cuts the bytes of the
  stream into lines: each line runs up to and including the next newline byte, and the
  last line is what remains after the last newline when that is not empty.
\<close>

fun getlines :: "string \<Rightarrow> string list" where
  "getlines [] = []"
| "getlines (c # cs) =
     (if c = CHR 0x0A then [c] # getlines cs
      else (case getlines cs of [] \<Rightarrow> [[c]] | l # ls \<Rightarrow> (c # l) # ls))"

text \<open>
  \<^verbatim>\<open>
  while (linelen > 0 && (line[linelen - 1] == '\n' || line[linelen - 1] == '\r')) linelen--;
  \<close>
\<close>

function strip_eol :: "string \<Rightarrow> string" where
  "strip_eol l =
     (if l \<noteq> [] \<and> (last l = CHR 0x0A \<or> last l = CHR 0x0D) then strip_eol (butlast l) else l)"
  by pat_completeness auto
termination
  by (relation "measure length") simp_all

declare strip_eol.simps [simp del]

text \<open>
  \<^verbatim>\<open>
  while ((linelen = getline(&line, &linecap, fp)) != -1) {
      while (...) linelen--;
      editorInsertRow(E.numrows, line, linelen);
  }
  \<close>
\<close>

fun editorOpen_loop :: "string list \<Rightarrow> editorConfig \<Rightarrow> editorConfig" where
  "editorOpen_loop [] E = E"
| "editorOpen_loop (line # ls) E =
     editorOpen_loop ls (editorInsertRow (numrows E) (strip_eol line) E)"

text \<open>
  A function of the program ends in one of four ways: it returns, the process exits
  (\<^verbatim>\<open>exit\<close>, also through \<^verbatim>\<open>die\<close>), it waits for input that never comes, or it has
  undefined behaviour.
\<close>

datatype 'a outcome = Returns 'a | Exits int | Waits | UB

definition of_option :: "'a option \<Rightarrow> 'a outcome" where
  "of_option x = (case x of None \<Rightarrow> UB | Some y \<Rightarrow> Returns y)"

text \<open>
  \<^verbatim>\<open>editorOpen\<close>: \<open>content\<close> is the content of the file, or \<open>None\<close> when \<^verbatim>\<open>fopen\<close>
  fails (then \<^verbatim>\<open>die("fopen")\<close> exits with status 1).
\<close>

definition editorOpen :: "string \<Rightarrow> string option \<Rightarrow> editorConfig \<Rightarrow> editorConfig outcome" where
  "editorOpen name content E =
     (let E1 = E\<lparr>filename := Some name\<rparr>
      in case content of
           None \<Rightarrow> Exits 1
         | Some bytes \<Rightarrow> Returns ((editorOpen_loop (getlines bytes) E1)\<lparr>dirty := 0\<rparr>))"

section \<open>Scrolling\<close>

text \<open>
  \<^verbatim>\<open>
  void editorScroll() {
      E.rx = 0;
      if (E.cy < E.numrows) E.rx = editorRowCxtoRx(&E.row[E.cy], E.cx);
      if (E.cy < E.rowoff) E.rowoff = E.cy;
      if (E.cy >= E.rowoff + E.screenrows) E.rowoff = E.cy - E.screenrows + 1;
      if (E.rx < E.coloff) E.coloff = E.rx;
      if (E.rx >= E.coloff + E.screencols) E.coloff = E.rx - E.screencols + 1;
  }
  \<close>
\<close>

definition editorScroll :: "editorConfig \<Rightarrow> editorConfig option" where
  "editorScroll E =
     (case (if cy E < numrows E then
              (case row_at E (cy E) of None \<Rightarrow> None | Some r \<Rightarrow> editorRowCxtoRx r (cx E))
            else Some 0) of
        None \<Rightarrow> None
      | Some x \<Rightarrow>
          let E1 = E\<lparr>rx := x\<rparr>;
              E2 = (if cy E1 < rowoff E1 then E1\<lparr>rowoff := cy E1\<rparr> else E1);
              E3 = (if cy E2 \<ge> rowoff E2 + screenrows E2
                    then E2\<lparr>rowoff := cy E2 - screenrows E2 + 1\<rparr> else E2);
              E4 = (if rx E3 < coloff E3 then E3\<lparr>coloff := rx E3\<rparr> else E3);
              E5 = (if rx E4 \<ge> coloff E4 + screencols E4
                    then E4\<lparr>coloff := rx E4 - screencols E4 + 1\<rparr> else E4)
          in Some E5)"

text \<open>
  \<^verbatim>\<open>editorRefreshScreen\<close> calls \<^verbatim>\<open>editorScroll\<close> and then writes the frame to the
  terminal; the frame is output only, and the state is the one \<^verbatim>\<open>editorScroll\<close> leaves.
\<close>

definition editorRefreshScreen :: "editorConfig \<Rightarrow> editorConfig option" where
  "editorRefreshScreen E = editorScroll E"

section \<open>Keys\<close>

definition BACKSPACE :: int where "BACKSPACE = 127"
definition ARROW_LEFT :: int where "ARROW_LEFT = 1000"
definition ARROW_RIGHT :: int where "ARROW_RIGHT = 1001"
definition ARROW_UP :: int where "ARROW_UP = 1002"
definition ARROW_DOWN :: int where "ARROW_DOWN = 1003"
definition DEL_KEY :: int where "DEL_KEY = 1004"
definition HOME_KEY :: int where "HOME_KEY = 1005"
definition END_KEY :: int where "END_KEY = 1006"
definition PAGE_UP :: int where "PAGE_UP = 1007"
definition PAGE_DOWN :: int where "PAGE_DOWN = 1008"

text \<open>\<^verbatim>\<open>'\x1b'\<close> and \<^verbatim>\<open>'\r'\<close> as \<^verbatim>\<open>int\<close>.\<close>

definition ESC :: int where "ESC = 27"
definition ENTER :: int where "ENTER = 13"

text \<open>
  \<^verbatim>\<open>#define CTRL_KEY(k) ((k) & 0x1f)\<close>; on the character codes, which are not negative,
  the mask is the remainder modulo 32.
\<close>

definition CTRL_KEY :: "char \<Rightarrow> int" where
  "CTRL_KEY k = of_char k mod 32"

lemmas key_defs =
  BACKSPACE_def ARROW_LEFT_def ARROW_RIGHT_def ARROW_UP_def ARROW_DOWN_def DEL_KEY_def
  HOME_KEY_def END_KEY_def PAGE_UP_def PAGE_DOWN_def ESC_def ENTER_def CTRL_KEY_def

text \<open>
  The value of a \<^verbatim>\<open>char\<close> as an \<^verbatim>\<open>int\<close>: \<^verbatim>\<open>char\<close> is signed on the platforms the
  program is written for (termios on x86-64), so the bytes from 128 on are negative.
\<close>

definition char_to_int :: "char \<Rightarrow> int" where
  "char_to_int c = (if (of_char c :: int) < 128 then of_char c else of_char c - 256)"

subsection \<open>editorReadKey\<close>

text \<open>
  One call of \<^verbatim>\<open>read(STDIN_FILENO, &c, 1)\<close> on the raw terminal returns 1 with a byte,
  0 after the timeout of a tenth of a second, or \<open>-1\<close> with an error (the flag says
  whether \<^verbatim>\<open>errno\<close> is \<^verbatim>\<open>EAGAIN\<close>). The input of the program is the list of these
  results in order; after the list every read times out.
\<close>

datatype rd = Byte char | Timeout | Error bool

fun read1 :: "rd list \<Rightarrow> rd \<times> rd list" where
  "read1 [] = (Timeout, [])"
| "read1 (x # xs) = (x, xs)"

text \<open>
  \<^verbatim>\<open>
  while ((nread = read(STDIN_FILENO, &c, 1)) != 1) {
      if (nread == -1 && errno != EAGAIN) die("read");
  }
  \<close>
  On an input that never brings a byte the loop does not end.
\<close>

fun wait_byte :: "rd list \<Rightarrow> (char \<times> rd list) outcome" where
  "wait_byte [] = Waits"
| "wait_byte (Byte c # xs) = Returns (c, xs)"
| "wait_byte (Timeout # xs) = wait_byte xs"
| "wait_byte (Error eagain # xs) = (if eagain then wait_byte xs else Exits 1)"

text \<open>
  The escape sequences, after the byte \<^verbatim>\<open>'\x1b'\<close>:
  \<^verbatim>\<open>
  char seq[3];
  if (read(STDIN_FILENO, &seq[0], 1) != 1) return '\x1b';
  if (read(STDIN_FILENO, &seq[1], 1) != 1) return '\x1b';
  if (seq[0] == '[') {
      if (seq[1] >= '0' && seq[1] <= '9') {
          if (read(STDIN_FILENO, &seq[2], 1) != 1) return '\x1b';
          if (seq[2] == '~') {
              switch (seq[1]) {
              case '1': return HOME_KEY;
              case '3': return DEL_KEY;
              case '4': return END_KEY;
              case '5': return PAGE_UP;
              case '6': return PAGE_DOWN;
              case '7': return HOME_KEY;
              case '8': return END_KEY;
              }
          }
      } else {
          switch (seq[1]) {
          case 'A': return ARROW_UP;
          case 'B': return ARROW_DOWN;
          case 'C': return ARROW_RIGHT;
          case 'D': return ARROW_LEFT;
          case 'H': return HOME_KEY;
          case 'F': return END_KEY;
          }
      }
  } else if (seq[0] == 'O') {
      switch (seq[1]) {
      case 'H': return HOME_KEY;
      case 'F': return END_KEY;
      }
  }
  return '\x1b';
  \<close>
\<close>

definition escape_tilde :: "char \<Rightarrow> int" where
  "escape_tilde d =
     (if d = CHR ''1'' then HOME_KEY
      else if d = CHR ''3'' then DEL_KEY
      else if d = CHR ''4'' then END_KEY
      else if d = CHR ''5'' then PAGE_UP
      else if d = CHR ''6'' then PAGE_DOWN
      else if d = CHR ''7'' then HOME_KEY
      else if d = CHR ''8'' then END_KEY
      else ESC)"

definition escape_bracket :: "char \<Rightarrow> int" where
  "escape_bracket d =
     (if d = CHR ''A'' then ARROW_UP
      else if d = CHR ''B'' then ARROW_DOWN
      else if d = CHR ''C'' then ARROW_RIGHT
      else if d = CHR ''D'' then ARROW_LEFT
      else if d = CHR ''H'' then HOME_KEY
      else if d = CHR ''F'' then END_KEY
      else ESC)"

definition escape_O :: "char \<Rightarrow> int" where
  "escape_O d =
     (if d = CHR ''H'' then HOME_KEY
      else if d = CHR ''F'' then END_KEY
      else ESC)"

text \<open>The test \<^verbatim>\<open>seq[1] >= '0' && seq[1] <= '9'\<close>.\<close>

definition is_digit :: "char \<Rightarrow> bool" where
  "is_digit c = (char_to_int c \<ge> char_to_int CHR ''0'' \<and> char_to_int c \<le> char_to_int CHR ''9'')"

definition read_escape :: "rd list \<Rightarrow> int \<times> rd list" where
  "read_escape inp =
     (case read1 inp of
        (Byte s0, inp1) \<Rightarrow>
          (case read1 inp1 of
             (Byte s1, inp2) \<Rightarrow>
               if s0 = CHR ''['' then
                 (if is_digit s1 then
                    (case read1 inp2 of
                       (Byte s2, inp3) \<Rightarrow>
                         if s2 = CHR ''~'' then (escape_tilde s1, inp3) else (ESC, inp3)
                     | (_, inp3) \<Rightarrow> (ESC, inp3))
                  else (escape_bracket s1, inp2))
               else if s0 = CHR ''O'' then (escape_O s1, inp2)
               else (ESC, inp2)
           | (_, inp2) \<Rightarrow> (ESC, inp2))
      | (_, inp1) \<Rightarrow> (ESC, inp1))"

definition editorReadKey :: "rd list \<Rightarrow> (int \<times> rd list) outcome" where
  "editorReadKey inp =
     (case wait_byte inp of
        Returns (c, inp') \<Rightarrow>
          if c = CHR 0x1B then Returns (read_escape inp') else Returns (char_to_int c, inp')
      | Exits n \<Rightarrow> Exits n
      | Waits \<Rightarrow> Waits
      | UB \<Rightarrow> UB)"

section \<open>Moving the cursor\<close>

text \<open>
  \<^verbatim>\<open>erow *row = (E.cy >= E.numrows) ? NULL : &E.row[E.cy];\<close> and the reads of
  \<^verbatim>\<open>row->size\<close> guarded by \<^verbatim>\<open>row\<close>: the size of the current row when there is one.
  The outer \<open>None\<close> is an access outside the array (a negative \<^verbatim>\<open>E.cy\<close>), the inner
  \<open>None\<close> is the pointer \<^verbatim>\<open>NULL\<close>.
\<close>

definition cur_row_size :: "editorConfig \<Rightarrow> int option option" where
  "cur_row_size E =
     (if cy E \<ge> numrows E then Some None
      else (case row_at E (cy E) of None \<Rightarrow> None | Some r \<Rightarrow> Some (Some (row_size r))))"

text \<open>
  The \<^verbatim>\<open>switch\<close> of \<^verbatim>\<open>editorMoveCursor\<close>:
  \<^verbatim>\<open>
  case ARROW_LEFT:
      if (E.cx != 0) { E.cx--; }
      else if (E.cy > 0) { E.cy--; E.cx = E.row[E.cy].size; }
      break;
  case ARROW_RIGHT:
      if (row && E.cx < row->size) { E.cx++; }
      else if (row && E.cx == row->size) { E.cy++; E.cx = 0; }
      break;
  case ARROW_UP:
      if (E.cy != 0) { E.cy--; }
      break;
  case ARROW_DOWN:
      if (E.cx < E.numrows) { E.cy++; }
      break;
  \<close>
\<close>

definition move_switch :: "int \<Rightarrow> editorConfig \<Rightarrow> editorConfig option" where
  "move_switch key E =
     (if key = ARROW_LEFT then
        (if cx E \<noteq> 0 then Some (E\<lparr>cx := cx E - 1\<rparr>)
         else if cy E > 0 then
           (let E1 = E\<lparr>cy := cy E - 1\<rparr>
            in case row_at E1 (cy E1) of
                 None \<Rightarrow> None
               | Some r \<Rightarrow> Some (E1\<lparr>cx := row_size r\<rparr>))
         else Some E)
      else if key = ARROW_RIGHT then
        (case cur_row_size E of
           None \<Rightarrow> None
         | Some None \<Rightarrow> Some E
         | Some (Some sz) \<Rightarrow>
             if cx E < sz then Some (E\<lparr>cx := cx E + 1\<rparr>)
             else if cx E = sz then Some (E\<lparr>cy := cy E + 1, cx := 0\<rparr>)
             else Some E)
      else if key = ARROW_UP then
        (if cy E \<noteq> 0 then Some (E\<lparr>cy := cy E - 1\<rparr>) else Some E)
      else if key = ARROW_DOWN then
        (if cx E < numrows E then Some (E\<lparr>cy := cy E + 1\<rparr>) else Some E)
      else Some E)"

text \<open>
  After the \<^verbatim>\<open>switch\<close>:
  \<^verbatim>\<open>
  row = (E.cy >= E.numrows) ? NULL : &E.row[E.cy];
  int rowlen = row ? row->size : 0;
  if (E.cx > rowlen) E.cx = rowlen;
  \<close>
\<close>

definition snap_cx :: "editorConfig \<Rightarrow> editorConfig option" where
  "snap_cx E =
     (case cur_row_size E of
        None \<Rightarrow> None
      | Some sz \<Rightarrow>
          let rowlen = (case sz of None \<Rightarrow> 0 | Some n \<Rightarrow> n)
          in if cx E > rowlen then Some (E\<lparr>cx := rowlen\<rparr>) else Some E)"

definition editorMoveCursor :: "int \<Rightarrow> editorConfig \<Rightarrow> editorConfig option" where
  "editorMoveCursor key E =
     (case move_switch key E of None \<Rightarrow> None | Some E1 \<Rightarrow> snap_cx E1)"

section \<open>Saving\<close>

text \<open>
  The C library's \<^verbatim>\<open>iscntrl\<close> in the C locale; its argument must be \<^verbatim>\<open>EOF\<close> or the
  value of an \<^verbatim>\<open>unsigned char\<close>, and the behaviour is undefined otherwise.
\<close>

definition iscntrl :: "int \<Rightarrow> bool option" where
  "iscntrl c =
     (if c = - 1 then Some False
      else if 0 \<le> c \<and> c \<le> 255 then Some (c < 32 \<or> c = 127)
      else None)"

lemma wait_byte_shorter: "wait_byte inp = Returns (c, inp') \<Longrightarrow> length inp' < length inp"
proof (induction inp rule: wait_byte.induct)
  case 1
  then show ?case by simp
next
  case (2 c xs)
  then show ?case by simp
next
  case (3 xs)
  then show ?case by fastforce
next
  case (4 eagain xs)
  then show ?case by (cases eagain) fastforce+
qed

lemma read1_shorter: "read1 inp = (x, inp') \<Longrightarrow> length inp' \<le> length inp"
  by (cases inp) auto

lemma read_escape_shorter: "read_escape inp = (k, inp') \<Longrightarrow> length inp' \<le> length inp"
  unfolding read_escape_def
  by (auto split: prod.splits rd.splits if_splits dest!: read1_shorter)

lemma editorReadKey_shorter:
  "editorReadKey inp = Returns (k, inp') \<Longrightarrow> length inp' < length inp"
  unfolding editorReadKey_def
  by (auto split: outcome.splits if_splits dest!: wait_byte_shorter read_escape_shorter)

lemma editorReadKey_shorter_pair:
  "editorReadKey inp = Returns p \<Longrightarrow> (k, inp') = p \<Longrightarrow> length inp' < length inp"
  by (cases p) (auto dest: editorReadKey_shorter)

text \<open>
  \<^verbatim>\<open>
  char *editorPrompt(char *prompt) {
      ...
      while (1) {
          editorSetStatusMessage(prompt, buf);
          editorRefreshScreen();
          int c = editorReadKey();
          if (c == DEL_KEY || c == CTRL_KEY('h') || c == BACKSPACE) {
              if (buflen != 0) buf[--buflen] = '\0';
          }
          if (c == '\x1b') {
              editorSetStatusMessage(""); free(buf); return NULL;
          } else if (c == '\r') {
              if (buflen != 0) { editorSetStatusMessage(""); return buf; }
          } else if (!iscntrl(c) && c < 128) {
              ... buf[buflen++] = c; buf[buflen] = '\0';
          }
      }
  }
  \<close>
  \<open>prompt_erase\<close> is the first \<^verbatim>\<open>if\<close> of the loop body. The only prompt of the program is \<^verbatim>\<open>"Save as: %s (ESC to cancel)"\<close>. The result is the
  returned string (\<open>None\<close> for \<^verbatim>\<open>NULL\<close>), the rest of the input and the state.
\<close>

definition prompt_erase :: "int \<Rightarrow> string \<Rightarrow> string" where
  "prompt_erase c buf =
     (if (c = DEL_KEY \<or> c = CTRL_KEY CHR ''h'' \<or> c = BACKSPACE) \<and> buf \<noteq> []
      then butlast buf else buf)"

function editorPrompt_loop ::
  "string \<Rightarrow> rd list \<Rightarrow> editorConfig \<Rightarrow> (string option \<times> rd list \<times> editorConfig) outcome" where
  "editorPrompt_loop buf inp E =
     (case editorRefreshScreen (E\<lparr>statusmsg := MsgPrompt buf\<rparr>) of
        None \<Rightarrow> UB
      | Some E1 \<Rightarrow>
          (case editorReadKey inp of
             Exits n \<Rightarrow> Exits n
           | Waits \<Rightarrow> Waits
           | UB \<Rightarrow> UB
           | Returns (c, inp') \<Rightarrow>
               let buf1 = prompt_erase c buf
               in if c = ESC then Returns (None, inp', E1\<lparr>statusmsg := MsgNone\<rparr>)
                  else if c = ENTER then
                    (if buf1 \<noteq> [] then Returns (Some buf1, inp', E1\<lparr>statusmsg := MsgNone\<rparr>)
                     else editorPrompt_loop buf1 inp' E1)
                  else
                    (case iscntrl c of
                       None \<Rightarrow> UB
                     | Some ctl \<Rightarrow>
                         if \<not> ctl \<and> c < 128 then editorPrompt_loop (buf1 @ [char_of c]) inp' E1
                         else editorPrompt_loop buf1 inp' E1)))"
  by pat_completeness auto
termination
  by (relation "measure (\<lambda>(buf, inp, E). length inp)")
     (auto intro: editorReadKey_shorter_pair)

declare editorPrompt_loop.simps [simp del]

definition editorPrompt ::
  "rd list \<Rightarrow> editorConfig \<Rightarrow> (string option \<times> rd list \<times> editorConfig) outcome" where
  "editorPrompt inp E = editorPrompt_loop [] inp E"

text \<open>
  What the operating system answers when the file is written: whether \<^verbatim>\<open>open\<close>,
  \<^verbatim>\<open>ftruncate\<close> and \<^verbatim>\<open>write\<close> (of all the bytes) succeed.
\<close>

record save_io =
  open_ok :: bool
  ftruncate_ok :: bool
  write_ok :: bool

text \<open>
  \<^verbatim>\<open>
  int len;
  char *buf = editorRowsToString(&len);
  int fd = open(E.filename, O_RDWR | O_CREAT, 0644);
  if (fd != -1) {
      if (ftruncate(fd, len) != -1) {
          if (write(fd, buf, len) == len) {
              close(fd); free(buf);
              editorSetStatusMessage("%d bytes written to disk", len);
              E.dirty = 0;
              return;
          }
      }
      close(fd);
  } else {
      free(buf);
      editorSetStatusMessage("Can't save! I/O error: %s", strerror(errno));
  }
  \<close>
\<close>

definition save_write :: "save_io \<Rightarrow> editorConfig \<Rightarrow> editorConfig" where
  "save_write io E =
     (let (buf, len) = editorRowsToString E
      in if open_ok io then
           (if ftruncate_ok io \<and> write_ok io
            then E\<lparr>statusmsg := MsgBytesWritten len, dirty := 0\<rparr>
            else E)
         else E\<lparr>statusmsg := MsgCantSave\<rparr>)"

text \<open>
  \<^verbatim>\<open>
  void editorSave() {
      if (E.filename == NULL) {
          E.filename = editorPrompt("Save as: %s (ESC to cancel)");
          if (E.filename == NULL) { editorSetStatusMessage("Save aborted"); return; }
      }
      ...
  }
  \<close>
\<close>

definition editorSave ::
  "save_io \<Rightarrow> rd list \<Rightarrow> editorConfig \<Rightarrow> (rd list \<times> editorConfig) outcome" where
  "editorSave io inp E =
     (if filename E = None then
        (case editorPrompt inp E of
           Returns (name, inp', E1) \<Rightarrow>
             let E2 = E1\<lparr>filename := name\<rparr>
             in if name = None then Returns (inp', E2\<lparr>statusmsg := MsgSaveAborted\<rparr>)
                else Returns (inp', save_write io E2)
         | Exits n \<Rightarrow> Exits n
         | Waits \<Rightarrow> Waits
         | UB \<Rightarrow> UB)
      else Returns (inp, save_write io E))"

section \<open>Processing a key\<close>

text \<open>
  \<^verbatim>\<open>int times = E.screenrows; while (times--) editorMoveCursor(key);\<close>
  With a negative \<^verbatim>\<open>E.screenrows\<close> the counter runs below \<^verbatim>\<open>INT_MIN\<close>.
\<close>

fun move_times :: "nat \<Rightarrow> int \<Rightarrow> editorConfig \<Rightarrow> editorConfig option" where
  "move_times 0 key E = Some E"
| "move_times (Suc n) key E =
     (case editorMoveCursor key E of None \<Rightarrow> None | Some E1 \<Rightarrow> move_times n key E1)"

text \<open>
  \<^verbatim>\<open>
  if (c == PAGE_UP) {
      E.cy = E.rowoff;
  } else if (c == PAGE_DOWN) {
      E.cy = E.rowoff + E.screenrows - 1;
      if (E.cy > E.numrows) E.cy = E.numrows;
  }
  int times = E.screenrows;
  while (times--) editorMoveCursor(c == PAGE_UP ? ARROW_UP : ARROW_DOWN);
  \<close>
\<close>

definition page_move :: "int \<Rightarrow> editorConfig \<Rightarrow> editorConfig option" where
  "page_move c E =
     (let E1 = (if c = PAGE_UP then E\<lparr>cy := rowoff E\<rparr>
                else if c = PAGE_DOWN then
                  (let E0 = E\<lparr>cy := rowoff E + screenrows E - 1\<rparr>
                   in if cy E0 > numrows E0 then E0\<lparr>cy := numrows E0\<rparr> else E0)
                else E)
      in if screenrows E1 < 0 then None
         else move_times (nat (screenrows E1)) (if c = PAGE_UP then ARROW_UP else ARROW_DOWN) E1)"

text \<open>
  The statement after the \<^verbatim>\<open>switch\<close> of \<^verbatim>\<open>editorProcessKeypress\<close>, reached by every
  \<^verbatim>\<open>break\<close>: \<^verbatim>\<open>quit_times = KILO_QUIT_TIMES;\<close>
\<close>

definition after_switch :: "(rd list \<times> editorConfig) outcome \<Rightarrow> (rd list \<times> editorConfig) outcome" where
  "after_switch r =
     (case r of
        Returns (inp, E) \<Rightarrow> Returns (inp, E\<lparr>quit_times := KILO_QUIT_TIMES\<rparr>)
      | Exits n \<Rightarrow> Exits n
      | Waits \<Rightarrow> Waits
      | UB \<Rightarrow> UB)"

definition continue :: "rd list \<Rightarrow> editorConfig option \<Rightarrow> (rd list \<times> editorConfig) outcome" where
  "continue inp x = (case x of None \<Rightarrow> UB | Some E \<Rightarrow> Returns (inp, E))"

text \<open>
  The \<^verbatim>\<open>switch (c)\<close> of \<^verbatim>\<open>editorProcessKeypress\<close>, in the order of the source:
  \<^verbatim>\<open>
  case '\r': editorInsertNewline(); break;
  case CTRL_KEY('q'):
      if (E.dirty && quit_times > 0) {
          editorSetStatusMessage("WARNING! ... Press Ctrl Q %d more times to quit.", quit_times);
          quit_times--;
          return;
      }
      ... exit(0);
  case CTRL_KEY('s'): editorSave(); break;
  case HOME_KEY: E.cx = 0; break;
  case END_KEY: if (E.cy < E.numrows) E.cx = E.row[E.cy].size; break;
  case BACKSPACE: case CTRL_KEY('h'): case DEL_KEY:
      if (c == DEL_KEY) editorMoveCursor(ARROW_RIGHT);
      editorDeleteChar();
      break;
  case PAGE_UP: case PAGE_DOWN: ... break;
  case ARROW_UP: case ARROW_DOWN: case ARROW_LEFT: case ARROW_RIGHT:
      editorMoveCursor(c); break;
  case CTRL_KEY('l'): case '\x1b': break;
  default: editorInsertChar(c); break;
  \<close>
\<close>

definition editorProcessKey ::
  "save_io \<Rightarrow> int \<Rightarrow> rd list \<Rightarrow> editorConfig \<Rightarrow> (rd list \<times> editorConfig) outcome" where
  "editorProcessKey io c inp E =
     (if c = ENTER then after_switch (continue inp (editorInsertNewline E))
      else if c = CTRL_KEY CHR ''q'' then
        (if dirty E \<noteq> 0 \<and> quit_times E > 0
         then Returns (inp, E\<lparr>statusmsg := MsgQuitWarning (quit_times E),
                               quit_times := quit_times E - 1\<rparr>)
         else Exits 0)
      else if c = CTRL_KEY CHR ''s'' then after_switch (editorSave io inp E)
      else if c = HOME_KEY then after_switch (Returns (inp, E\<lparr>cx := 0\<rparr>))
      else if c = END_KEY then
        after_switch
          (if cy E < numrows E then
             (case row_at E (cy E) of
                None \<Rightarrow> UB
              | Some r \<Rightarrow> Returns (inp, E\<lparr>cx := row_size r\<rparr>))
           else Returns (inp, E))
      else if c = BACKSPACE \<or> c = CTRL_KEY CHR ''h'' \<or> c = DEL_KEY then
        after_switch
          (continue inp
             (case (if c = DEL_KEY then editorMoveCursor ARROW_RIGHT E else Some E) of
                None \<Rightarrow> None
              | Some E1 \<Rightarrow> editorDeleteChar E1))
      else if c = PAGE_UP \<or> c = PAGE_DOWN then after_switch (continue inp (page_move c E))
      else if c = ARROW_UP \<or> c = ARROW_DOWN \<or> c = ARROW_LEFT \<or> c = ARROW_RIGHT then
        after_switch (continue inp (editorMoveCursor c E))
      else if c = CTRL_KEY CHR ''l'' \<or> c = ESC then after_switch (Returns (inp, E))
      else after_switch (continue inp (editorInsertChar c E)))"

text \<open>\<^verbatim>\<open>editorProcessKeypress\<close>: \<^verbatim>\<open>int c = editorReadKey();\<close> and the \<^verbatim>\<open>switch\<close>.\<close>

definition editorProcessKeypress ::
  "save_io \<Rightarrow> rd list \<Rightarrow> editorConfig \<Rightarrow> (rd list \<times> editorConfig) outcome" where
  "editorProcessKeypress io inp E =
     (case editorReadKey inp of
        Returns (c, inp') \<Rightarrow> editorProcessKey io c inp' E
      | Exits n \<Rightarrow> Exits n
      | Waits \<Rightarrow> Waits
      | UB \<Rightarrow> UB)"

section \<open>The main loop\<close>

text \<open>
  \<^verbatim>\<open>initEditor\<close>, with the window size the terminal reports (\<^verbatim>\<open>die\<close> when it reports
  none), followed by \<^verbatim>\<open>editorSetStatusMessage("HELP: ...")\<close> in \<^verbatim>\<open>main\<close>; the static
  \<^verbatim>\<open>quit_times\<close> starts at \<^verbatim>\<open>KILO_QUIT_TIMES\<close>.
\<close>

definition initEditor :: "int \<Rightarrow> int \<Rightarrow> editorConfig" where
  "initEditor ws_row ws_col =
     \<lparr>cx = 0, cy = 0, rx = 0, rowoff = 0, coloff = 0,
      screenrows = ws_row - 2, screencols = ws_col,
      row = [], dirty = 0, filename = None, statusmsg = MsgNone,
      quit_times = KILO_QUIT_TIMES\<rparr>"

text \<open>
  One turn of \<^verbatim>\<open>while (1) { editorRefreshScreen(); editorProcessKeypress(); }\<close>,
  and the first \<open>n\<close> turns.
\<close>

definition editorStep ::
  "save_io \<Rightarrow> rd list \<Rightarrow> editorConfig \<Rightarrow> (rd list \<times> editorConfig) outcome" where
  "editorStep io inp E =
     (case editorRefreshScreen E of
        None \<Rightarrow> UB
      | Some E1 \<Rightarrow> editorProcessKeypress io inp E1)"

fun editorSteps ::
  "nat \<Rightarrow> save_io \<Rightarrow> rd list \<Rightarrow> editorConfig \<Rightarrow> (rd list \<times> editorConfig) outcome" where
  "editorSteps 0 io inp E = Returns (inp, E)"
| "editorSteps (Suc n) io inp E =
     (case editorStep io inp E of
        Returns (inp', E') \<Rightarrow> editorSteps n io inp' E'
      | Exits k \<Rightarrow> Exits k
      | Waits \<Rightarrow> Waits
      | UB \<Rightarrow> UB)"

text \<open>
  The states of a run of \<^verbatim>\<open>main\<close>: after \<^verbatim>\<open>initEditor\<close>, \<^verbatim>\<open>editorOpen\<close> when a file
  is named, and the help message; then after every \<^verbatim>\<open>editorRefreshScreen\<close> and every
  \<^verbatim>\<open>editorProcessKeypress\<close> that returns.
\<close>

inductive reachable :: "editorConfig \<Rightarrow> bool" where
  start: "reachable ((initEditor ws_row ws_col)\<lparr>statusmsg := MsgHelp\<rparr>)"
| start_file:
    "editorOpen name content (initEditor ws_row ws_col) = Returns E
     \<Longrightarrow> reachable (E\<lparr>statusmsg := MsgHelp\<rparr>)"
| refresh: "reachable E \<Longrightarrow> editorRefreshScreen E = Some E' \<Longrightarrow> reachable E'"
| keypress:
    "reachable E \<Longrightarrow> editorProcessKeypress io inp E = Returns (inp', E') \<Longrightarrow> reachable E'"

section \<open>The specification's functions\<close>

text \<open>
  The definitions of this section follow the words of the specification, not the code;
  the theorems compare them with the functions of the code.

  \<open>logicalToVisual\<close>: "walks bytes \<open>[0, logicalCol)\<close>; for each tab byte, advances the
  accumulator by \<open>(8 - 1) - (acc mod 8)\<close> then by one more, otherwise advances by one".
\<close>

definition spec_advance :: "int \<Rightarrow> char \<Rightarrow> int" where
  "spec_advance acc b = (if b = CHR 0x09 then acc + ((8 - 1) - (acc mod 8)) + 1 else acc + 1)"

definition logicalToVisual :: "erow \<Rightarrow> nat \<Rightarrow> int" where
  "logicalToVisual r n = foldl spec_advance 0 (take n (chars r))"

text \<open>
  Serialization: "lines joined by \<open>\n\<close> (trailing newline after every line, including the
  last)".
\<close>

definition join_lines :: "string list \<Rightarrow> string" where
  "join_lines ls = concat (map (\<lambda>l. l @ [CHR 0x0A]) ls)"

text \<open>
  The decoding table of the key decoder: the bytes that follow \<open>ESC\<close>, and the key.
\<close>

definition escape_table :: "(string \<times> int) list" where
  "escape_table =
     [(''[1~'', HOME_KEY), (''[7~'', HOME_KEY), (''[3~'', DEL_KEY),
      (''[4~'', END_KEY), (''[8~'', END_KEY), (''[5~'', PAGE_UP), (''[6~'', PAGE_DOWN),
      (''[A'', ARROW_UP), (''[B'', ARROW_DOWN), (''[C'', ARROW_RIGHT), (''[D'', ARROW_LEFT),
      (''[H'', HOME_KEY), (''OH'', HOME_KEY), (''[F'', END_KEY), (''OF'', END_KEY)]"

text \<open>
  \<open>renderOf\<close>: "walks the raw bytes, expands each tab to pad to the next multiple of 8
  visual columns, and appends all other bytes unchanged". \<open>col\<close> is the visual column
  reached so far.
\<close>

fun renderOf_from :: "nat \<Rightarrow> string \<Rightarrow> string" where
  "renderOf_from col [] = []"
| "renderOf_from col (c # cs) =
     (if c = CHR 0x09
      then replicate (8 - col mod 8) (CHR '' '') @ renderOf_from (col + (8 - col mod 8)) cs
      else c # renderOf_from (col + 1) cs)"

definition renderOf :: "string \<Rightarrow> string" where
  "renderOf raw = renderOf_from 0 raw"

subsection \<open>Invariants and edit sequences\<close>

text \<open>The cache-consistency invariant: the render of every line is the one recomputed.\<close>

definition row_ok :: "erow \<Rightarrow> bool" where
  "row_ok r = (render r = renderOf (chars r))"

definition rows_in_sync :: "editorConfig \<Rightarrow> bool" where
  "rows_in_sync E = list_all row_ok (row E)"

text \<open>
  The cursor invariant of the data model: the row is a line or the row one past the
  last line, and the column is within the line (column 0 on the row past the end).
\<close>

definition cursor_ok :: "editorConfig \<Rightarrow> bool" where
  "cursor_ok E =
     (0 \<le> cy E \<and> cy E \<le> numrows E \<and> 0 \<le> cx E \<and>
      (if cy E < numrows E then cx E \<le> row_size (row E ! nat (cy E)) else cx E = 0))"

text \<open>The three edit operations of the Edit Engine, and a sequence of them.\<close>

datatype edit_op = InsertChar int | DeleteCharBackward | InsertNewline

fun apply_edit :: "edit_op \<Rightarrow> editorConfig \<Rightarrow> editorConfig option" where
  "apply_edit (InsertChar c) E = editorInsertChar c E"
| "apply_edit DeleteCharBackward E = editorDeleteChar E"
| "apply_edit InsertNewline E = editorInsertNewline E"

fun run_edits :: "edit_op list \<Rightarrow> editorConfig \<Rightarrow> editorConfig option" where
  "run_edits [] E = Some E"
| "run_edits (x # xs) E =
     (case apply_edit x E of None \<Rightarrow> None | Some E1 \<Rightarrow> run_edits xs E1)"

subsection \<open>Example documents\<close>

text \<open>A document of two lines, \<open>ab\<close> and \<open>cd\<close>, with the cursor at column \<open>x\<close> of row \<open>y\<close>.\<close>

definition doc2 :: "int \<Rightarrow> int \<Rightarrow> editorConfig" where
  "doc2 x y =
     \<lparr>cx = x, cy = y, rx = 0, rowoff = 0, coloff = 0, screenrows = 22, screencols = 80,
      row = [\<lparr>chars = ''ab'', render = ''ab''\<rparr>, \<lparr>chars = ''cd'', render = ''cd''\<rparr>],
      dirty = 0, filename = None, statusmsg = MsgNone, quit_times = 3\<rparr>"

text \<open>The same document with unsaved changes, and a system on which saving succeeds.\<close>

definition dirty_doc :: editorConfig where
  "dirty_doc = (doc2 0 0)\<lparr>dirty := 1\<rparr>"

definition io_ok :: save_io where
  "io_ok = \<lparr>open_ok = True, ftruncate_ok = True, write_ok = True\<rparr>"

text \<open>
  A document of three lines (a tab and \<open>a\<close>; \<open>b\<close>; \<open>c\<close>) in a window of 2 rows and 4
  columns, with the cursor at column \<open>x\<close> of row \<open>y\<close>.
\<close>

definition tab_doc :: "int \<Rightarrow> int \<Rightarrow> editorConfig" where
  "tab_doc x y =
     \<lparr>cx = x, cy = y, rx = 0, rowoff = 0, coloff = 0, screenrows = 2, screencols = 4,
      row = [\<lparr>chars = [CHR 0x09, CHR ''a''], render = ''        a''\<rparr>,
             \<lparr>chars = ''b'', render = ''b''\<rparr>,
             \<lparr>chars = ''c'', render = ''c''\<rparr>],
      dirty = 0, filename = None, statusmsg = MsgNone, quit_times = 3\<rparr>"

subsection \<open>The parts of editorScroll\<close>

text \<open>
  The two pairs of \<^verbatim>\<open>if\<close> statements of \<^verbatim>\<open>editorScroll\<close> are the same function of a
  position, an offset and an extent; and its first two statements compute the visual
  column of the cursor.
\<close>

definition clamp_offset :: "int \<Rightarrow> int \<Rightarrow> int \<Rightarrow> int" where
  "clamp_offset pos off extent =
     (let off1 = (if pos < off then pos else off)
      in if pos \<ge> off1 + extent then pos - extent + 1 else off1)"

definition cursor_rx :: "editorConfig \<Rightarrow> int option" where
  "cursor_rx E =
     (if cy E < numrows E then
        (case row_at E (cy E) of None \<Rightarrow> None | Some r \<Rightarrow> editorRowCxtoRx r (cx E))
      else Some 0)"

section \<open>Tab expansion\<close>

lemma CxtoRx_loop_foldl:
  "0 \<le> j \<Longrightarrow> n \<le> row_size r \<Longrightarrow>
   CxtoRx_loop r n j acc = Some (foldl spec_advance acc (take (nat (n - j)) (drop (nat j) (chars r))))"
proof (induction r n j acc rule: CxtoRx_loop.induct)
  case (1 r n j acc)
  show ?case
  proof (cases "j < n")
    case False
    then show ?thesis by (simp add: CxtoRx_loop.simps)
  next
    case True
    with 1 have jr: "nat j < length (chars r)" by (simp add: row_size_def)
    have at: "chars_at r j = Some (chars r ! nat j)"
      using True 1 by (simp add: chars_at_def)
    have step: "take (nat (n - j)) (drop (nat j) (chars r))
        = chars r ! nat j # take (nat (n - (j + 1))) (drop (nat (j + 1)) (chars r))"
    proof -
      have "drop (nat j) (chars r) = chars r ! nat j # drop (Suc (nat j)) (chars r)"
        using jr by (simp add: Cons_nth_drop_Suc)
      moreover have "nat (n - j) = Suc (nat (n - (j + 1)))" using True by simp
      moreover have "nat (j + 1) = Suc (nat j)" using 1 by simp
      ultimately show ?thesis by simp
    qed
    have eq: "(if chars r ! nat j = CHR 0x09
                then acc + ((KILO_TAB_STOP - 1) - (acc mod KILO_TAB_STOP)) else acc) + 1
              = spec_advance acc (chars r ! nat j)"
      by (simp add: spec_advance_def KILO_TAB_STOP_def)
    have j1: "0 \<le> j + 1" using 1 by simp
    have unfold: "CxtoRx_loop r n j acc
        = CxtoRx_loop r n (j + 1)
            ((if chars r ! nat j = CHR 0x09
              then acc + ((KILO_TAB_STOP - 1) - (acc mod KILO_TAB_STOP)) else acc) + 1)"
      using True at by (subst CxtoRx_loop.simps) simp
    have "CxtoRx_loop r n j acc = CxtoRx_loop r n (j + 1) (spec_advance acc (chars r ! nat j))"
      using unfold by (simp only: eq)
    also have "\<dots> = Some (foldl spec_advance (spec_advance acc (chars r ! nat j))
        (take (nat (n - (j + 1))) (drop (nat (j + 1)) (chars r))))"
      using "1.IH"[OF True at j1 "1.prems"(2)] by (simp only: eq)
    finally show ?thesis by (simp add: step)
  qed
qed

lemma spec_advance_gt: "acc < spec_advance acc b"
proof -
  have "acc mod 8 < 8" by simp
  then show ?thesis unfolding spec_advance_def by (simp split: if_splits) 
qed

lemma foldl_spec_advance_ge: "acc \<le> foldl spec_advance acc xs"
proof (induction xs arbitrary: acc)
  case Nil
  then show ?case by simp
next
  case (Cons x xs)
  have "acc \<le> spec_advance acc x" using spec_advance_gt[of acc x] by simp
  also have "\<dots> \<le> foldl spec_advance (spec_advance acc x) xs" by (rule Cons.IH)
  finally show ?case by simp
qed

lemma logicalToVisual_mono: "m \<le> n \<Longrightarrow> logicalToVisual r m \<le> logicalToVisual r n"
proof -
  assume mn: "m \<le> n"
  have "take n (chars r) = take m (chars r) @ take (n - m) (drop m (chars r))"
    using mn by (metis le_add_diff_inverse take_add)
  then show ?thesis
    unfolding logicalToVisual_def by (simp add: foldl_spec_advance_ge)
qed

lemma editorRowCxtoRx_spec:
  "0 \<le> n \<Longrightarrow> n \<le> row_size r \<Longrightarrow> editorRowCxtoRx r n = Some (logicalToVisual r (nat n))"
  unfolding editorRowCxtoRx_def logicalToVisual_def
  using CxtoRx_loop_foldl[of 0 n r 0] by simp

lemma pad_arith1:
  fixes n :: nat
  assumes "n mod 8 \<noteq> 0"
  shows "Suc ((8 - Suc n mod 8) mod 8) = (8 - n mod 8) mod 8"
proof -
  define m where "m = n mod 8"
  have m8: "m < 8" by (simp add: m_def)
  have m0: "m \<noteq> 0" using assms by (simp add: m_def)
  have s: "Suc n mod 8 = (if Suc m = 8 then 0 else Suc m)"
    unfolding m_def by (rule mod_Suc)
  show ?thesis
  proof (cases "Suc m = 8")
    case True
    then have "m = 7" by simp
    then show ?thesis using s by (simp add: m_def[symmetric])
  next
    case False
    then have "Suc m < 8" using m8 by simp
    then show ?thesis using s False m0 by (simp add: m_def[symmetric])
  qed
qed

lemma pad_arith2:
  fixes n :: nat
  shows "Suc ((8 - Suc n mod 8) mod 8) = 8 - n mod 8"
proof -
  define m where "m = n mod 8"
  have m8: "m < 8" by (simp add: m_def)
  have s: "Suc n mod 8 = (if Suc m = 8 then 0 else Suc m)"
    unfolding m_def by (rule mod_Suc)
  show ?thesis
  proof (cases "Suc m = 8")
    case True
    then have "m = 7" by simp
    then show ?thesis using s by (simp add: m_def[symmetric])
  next
    case False
    then have "Suc m < 8" using m8 by simp
    then show ?thesis using s False by (simp add: m_def[symmetric])
  qed
qed

lemma pad_to_tab_stop_eq:
  "pad_to_tab_stop out = out @ replicate ((8 - length out mod 8) mod 8) (CHR '' '')"
proof (induction out rule: pad_to_tab_stop.induct)
  case (1 out)
  show ?case
  proof (cases "int (length out) mod KILO_TAB_STOP \<noteq> 0")
    case False
    then have "int (length out) mod 8 = 0"
      by (simp add: KILO_TAB_STOP_def)
    then have "length out mod 8 = 0"
      by (metis of_nat_eq_0_iff of_nat_mod of_nat_numeral)
    then show ?thesis
      using False by (subst pad_to_tab_stop.simps) simp
  next
    case True
    then have "int (length out) mod 8 \<noteq> 0"
      by (simp add: KILO_TAB_STOP_def)
    then have m: "length out mod 8 \<noteq> 0"
      by (metis of_nat_0 of_nat_mod of_nat_numeral)
    have "pad_to_tab_stop out = pad_to_tab_stop (out @ [CHR '' ''])"
      using True by (subst pad_to_tab_stop.simps) simp
    also have "\<dots> = (out @ [CHR '' ''])
        @ replicate ((8 - length (out @ [CHR '' '']) mod 8) mod 8) (CHR '' '')"
      using "1.IH"[OF True] .
    also have "\<dots> = out @ replicate (Suc ((8 - Suc (length out) mod 8) mod 8)) (CHR '' '')"
      by simp
    finally show ?thesis
      by (simp only: pad_arith1[OF m])
  qed
qed

lemma pad_after_space:
  "pad_to_tab_stop (out @ [CHR '' '']) = out @ replicate (8 - length out mod 8) (CHR '' '')"
proof -
  have "pad_to_tab_stop (out @ [CHR '' ''])
      = out @ replicate (Suc ((8 - Suc (length out) mod 8) mod 8)) (CHR '' '')"
    by (simp add: pad_to_tab_stop_eq[of "out @ [CHR '' '']"])
  then show ?thesis
    by (simp only: pad_arith2)
qed

lemma render_loop_renderOf: "render_loop cs out = out @ renderOf_from (length out) cs"
proof (induction cs arbitrary: out)
  case Nil
  then show ?case by simp
next
  case (Cons c cs)
  show ?case
  proof (cases "c = CHR 0x09")
    case True
    then show ?thesis
      by (simp add: Cons.IH pad_after_space)
  next
    case False
    then show ?thesis by (simp add: Cons.IH)
  qed
qed

lemma editorUpdateRow_render [simp]: "render (editorUpdateRow r) = renderOf (chars r)"
  by (simp add: editorUpdateRow_def renderOf_def render_loop_renderOf)

lemma editorUpdateRow_chars [simp]: "chars (editorUpdateRow r) = chars r"
  by (simp add: editorUpdateRow_def)

lemma row_ok_update [simp]: "row_ok (editorUpdateRow r)"
  by (simp add: row_ok_def)

lemma rows_in_sync_iff: "rows_in_sync E = (\<forall>r \<in> set (row E). row_ok r)"
  by (simp add: rows_in_sync_def list_all_iff)

section \<open>Cache consistency of the edit operations\<close>

lemma rows_in_sync_InsertRow:
  "rows_in_sync E \<Longrightarrow> rows_in_sync (editorInsertRow at s E)"
  unfolding rows_in_sync_iff editorInsertRow_def
  by (auto dest: in_set_takeD in_set_dropD)

lemma rows_in_sync_DelRow:
  "rows_in_sync E \<Longrightarrow> rows_in_sync (editorDelRow at E)"
  unfolding rows_in_sync_iff editorDelRow_def
  by (auto dest: in_set_takeD in_set_dropD)

lemma rows_in_sync_list_update:
  "rows_in_sync E \<Longrightarrow> row_ok r \<Longrightarrow> row E' = (row E)[i := r] \<Longrightarrow> rows_in_sync E'"
  unfolding rows_in_sync_iff
  using set_update_subset_insert[of "row E" i r] by auto

lemma rows_in_sync_updI:
  "rows_in_sync E \<Longrightarrow> row_ok r \<Longrightarrow> rows_in_sync (E\<lparr>row := (row E)[i := r], dirty := d\<rparr>)"
  by (rule rows_in_sync_list_update[where r = r and i = i]) simp_all

lemma rows_in_sync_RowInsertChar:
  "rows_in_sync E \<Longrightarrow> editorRowInsertChar ri at c E = Some E' \<Longrightarrow> rows_in_sync E'"
  unfolding editorRowInsertChar_def
  by (auto simp: Let_def split: option.splits intro!: rows_in_sync_updI)

lemma rows_in_sync_RowAppendString:
  "rows_in_sync E \<Longrightarrow> editorRowAppendString ri s E = Some E' \<Longrightarrow> rows_in_sync E'"
  unfolding editorRowAppendString_def
  by (auto simp: Let_def split: option.splits intro!: rows_in_sync_updI)

lemma rows_in_sync_RowDelChar:
  "rows_in_sync E \<Longrightarrow> editorRowDelChar ri at E = Some E' \<Longrightarrow> rows_in_sync E'"
  unfolding editorRowDelChar_def
  by (auto simp: Let_def split: option.splits if_splits intro!: rows_in_sync_updI)

lemma rows_in_sync_row_cong:
  "row E' = row E \<Longrightarrow> rows_in_sync E' = rows_in_sync E"
  by (simp add: rows_in_sync_def)

lemma rows_in_sync_InsertChar:
  assumes "rows_in_sync E" "editorInsertChar c E = Some E'"
  shows "rows_in_sync E'"
proof -
  define E1 where "E1 = (if cy E = numrows E then editorInsertRow (numrows E) [] E else E)"
  have s1: "rows_in_sync E1"
    using assms(1) by (simp add: E1_def rows_in_sync_InsertRow)
  from assms(2) obtain E2 where
    e2: "editorRowInsertChar (cy E1) (cx E1) c E1 = Some E2" and e': "E' = E2\<lparr>cx := cx E2 + 1\<rparr>"
    unfolding editorInsertChar_def E1_def[symmetric] by (auto simp: Let_def split: option.splits)
  have "rows_in_sync E2" using s1 e2 by (rule rows_in_sync_RowInsertChar)
  then show ?thesis by (simp add: e' rows_in_sync_def)
qed

lemma rows_in_sync_InsertNewline:
  assumes "rows_in_sync E" "editorInsertNewline E = Some E'"
  shows "rows_in_sync E'"
proof (cases "cx E = 0")
  case True
  then have "E' = (editorInsertRow (cy E) [] E)\<lparr>cy := cy (editorInsertRow (cy E) [] E) + 1, cx := 0\<rparr>"
    using assms(2) by (simp add: editorInsertNewline_def Let_def)
  then show ?thesis
    using rows_in_sync_InsertRow[OF assms(1), of "cy E" "[]"] by (simp add: rows_in_sync_def)
next
  case False
  from assms(2) False obtain r r1 where
    r: "row_at E (cy E) = Some r" and
    e': "E' = (editorInsertRow (cy E + 1) (drop (nat (cx E)) (chars r)) E)
          \<lparr>row := (row (editorInsertRow (cy E + 1) (drop (nat (cx E)) (chars r)) E))
              [nat (cy (editorInsertRow (cy E + 1) (drop (nat (cx E)) (chars r)) E))
                := editorUpdateRow (r1\<lparr>chars := take (nat (cx (editorInsertRow (cy E + 1) (drop (nat (cx E)) (chars r)) E))) (chars r1)\<rparr>)],
            cy := cy (editorInsertRow (cy E + 1) (drop (nat (cx E)) (chars r)) E) + 1, cx := 0\<rparr>"
    unfolding editorInsertNewline_def
    by (auto simp: Let_def split: option.splits if_splits)
  have "rows_in_sync (editorInsertRow (cy E + 1) (drop (nat (cx E)) (chars r)) E)"
    using assms(1) by (rule rows_in_sync_InsertRow)
  then show ?thesis
    by (rule rows_in_sync_list_update[where r = "editorUpdateRow (r1\<lparr>chars := take (nat (cx (editorInsertRow (cy E + 1) (drop (nat (cx E)) (chars r)) E))) (chars r1)\<rparr>)"])
       (simp_all add: e')
qed

lemma rows_in_sync_DeleteChar:
  assumes "rows_in_sync E" "editorDeleteChar E = Some E'"
  shows "rows_in_sync E'"
proof -
  consider (a) "cy E = numrows E \<or> (cx E = 0 \<and> cy E = 0)"
    | (b) "\<not> (cy E = numrows E \<or> (cx E = 0 \<and> cy E = 0))" "cx E > 0"
    | (c) "\<not> (cy E = numrows E \<or> (cx E = 0 \<and> cy E = 0))" "\<not> cx E > 0"
    by blast
  then show ?thesis
  proof cases
    case a
    then have "E' = E" using assms(2) by (auto simp: editorDeleteChar_def split: if_splits)
    then show ?thesis using assms(1) by simp
  next
    case b
    then obtain E1 where e1: "editorRowDelChar (cy E) (cx E - 1) E = Some E1"
      and e': "E' = E1\<lparr>cx := cx E1 - 1\<rparr>"
      using assms(2) by (auto simp: editorDeleteChar_def split: option.splits)
    have "rows_in_sync E1" using assms(1) e1 by (rule rows_in_sync_RowDelChar)
    then show ?thesis by (simp add: e' rows_in_sync_def)
  next
    case c
    then have nz: "(cx E = 0 \<and> cy E = 0) = False" and nn: "(cy E = numrows E) = False"
      and np: "(0 < cx E) = False"
      by simp_all
    show ?thesis
    proof (cases "row_at E (cy E - 1)")
      case None
      then show ?thesis
        using assms(2) by (simp add: editorDeleteChar_def nz nn np)
    next
      case p: (Some p)
      show ?thesis
      proof (cases "row_at E (cy E)")
        case None
        then show ?thesis
          using assms(2) p by (simp add: editorDeleteChar_def nz nn np)
      next
        case r: (Some r)
        show ?thesis
        proof (cases "editorRowAppendString (cy E - 1) (chars r) (E\<lparr>cx := row_size p\<rparr>)")
          case None
          then show ?thesis
            using assms(2) p r by (simp add: editorDeleteChar_def nz nn np)
        next
          case (Some E2)
          then have e': "E' = (editorDelRow (cy E2) E2)\<lparr>cy := cy (editorDelRow (cy E2) E2) - 1\<rparr>"
            using assms(2) p r by (simp add: editorDeleteChar_def nz nn np Let_def)
          have "rows_in_sync (E\<lparr>cx := row_size p\<rparr>)"
            using assms(1) by (simp add: rows_in_sync_def)
          then have "rows_in_sync E2" using Some by (rule rows_in_sync_RowAppendString)
          then have "rows_in_sync (editorDelRow (cy E2) E2)" by (rule rows_in_sync_DelRow)
          then show ?thesis by (simp add: e' rows_in_sync_def)
        qed
      qed
    qed
  qed
qed

lemma rows_in_sync_apply_edit:
  "rows_in_sync E \<Longrightarrow> apply_edit x E = Some E' \<Longrightarrow> rows_in_sync E'"
  by (cases x)
     (auto intro: rows_in_sync_InsertChar rows_in_sync_InsertNewline rows_in_sync_DeleteChar)

lemma rows_in_sync_run_edits:
  "rows_in_sync E \<Longrightarrow> run_edits xs E = Some E' \<Longrightarrow> rows_in_sync E'"
proof (induction xs arbitrary: E)
  case Nil
  then show ?case by simp
next
  case (Cons x xs)
  from Cons.prems(2) obtain E1 where
    a: "apply_edit x E = Some E1" and b: "run_edits xs E1 = Some E'"
    by (auto split: option.splits)
  show ?case
    using Cons.IH[OF rows_in_sync_apply_edit[OF Cons.prems(1) a] b] .
qed


section \<open>What the edit operations compute\<close>

lemma row_at_Some: "0 \<le> i \<Longrightarrow> i < numrows E \<Longrightarrow> row_at E i = Some (row E ! nat i)"
  by (simp add: row_at_def)

lemma editorDeleteChar_at_end: "cy E = numrows E \<Longrightarrow> editorDeleteChar E = Some E"
  by (simp add: editorDeleteChar_def)

lemma editorDeleteChar_at_start: "cx E = 0 \<Longrightarrow> cy E = 0 \<Longrightarrow> editorDeleteChar E = Some E"
  by (simp add: editorDeleteChar_def)

lemma editorDeleteChar_in_row:
  assumes "0 \<le> cy E" "cy E < numrows E" "0 < cx E" "cx E \<le> row_size (row E ! nat (cy E))"
  shows "editorDeleteChar E =
    Some (E\<lparr>row := (row E)[nat (cy E) := editorUpdateRow ((row E ! nat (cy E))
                \<lparr>chars := take (nat (cx E - 1)) (chars (row E ! nat (cy E)))
                         @ drop (nat (cx E)) (chars (row E ! nat (cy E)))\<rparr>)],
             dirty := dirty E + 1, cx := cx E - 1\<rparr>)"
proof -
  have n: "(cy E = numrows E) = False" "(cx E = 0 \<and> cy E = 0) = False"
    using assms by auto
  have s: "Suc (nat (cx E - 1)) = nat (cx E)" using assms by simp
  show ?thesis
    using assms
    by (simp add: editorDeleteChar_def n editorRowDelChar_def row_at_Some Let_def s)
qed

lemma editorDeleteChar_join:
  assumes "cx E = 0" "0 < cy E" "cy E < numrows E"
  shows "editorDeleteChar E =
    Some (E\<lparr>cx := row_size (row E ! nat (cy E - 1)),
             row := take (nat (cy E - 1)) (row E)
                    @ [editorUpdateRow ((row E ! nat (cy E - 1))
                         \<lparr>chars := chars (row E ! nat (cy E - 1)) @ chars (row E ! nat (cy E))\<rparr>)]
                    @ drop (nat (cy E) + 1) (row E),
             dirty := dirty E + 2, cy := cy E - 1\<rparr>)"
proof -
  have n: "(cy E = numrows E) = False" "(cx E = 0 \<and> cy E = 0) = False"
    using assms by auto
  define i where "i = nat (cy E - 1)"
  have i: "nat (cy E) = Suc i" "i < length (row E)" "Suc i < length (row E)"
    using assms by (simp_all add: i_def numrows_def)
  have l: "take (Suc i) ((row E)[i := y]) = take i (row E) @ [y]" for y
    using i by (simp add: take_Suc_conv_app_nth)
  have r1: "row_at E (cy E - 1) = Some (row E ! i)"
    using assms by (simp add: row_at_Some i_def)
  have r2: "row_at E (cy E) = Some (row E ! Suc i)"
    using assms i by (simp add: row_at_Some)
  show ?thesis
    using assms i
    by (simp add: editorDeleteChar_def n r1 r2 editorRowAppendString_def row_at_def numrows_def
        editorDelRow_def Let_def i_def[symmetric] l add.commute)
qed


lemma row_size_nonneg [simp]: "0 \<le> row_size r"
  by (simp add: row_size_def)

lemma editorInsertChar_at_end:
  assumes "cy E = numrows E"
  shows "editorInsertChar c E =
    Some (E\<lparr>row := row E @ [editorUpdateRow \<lparr>chars = [char_of c], render = renderOf []\<rparr>],
             dirty := dirty E + 2, cx := cx E + 1\<rparr>)"
proof -
  have "int (length (row E)) < int (length (row E)) + 1" by simp
  then show ?thesis
    using assms
    by (simp add: editorInsertChar_def editorInsertRow_def editorRowInsertChar_def row_at_def
        numrows_def Let_def row_size_def editorUpdateRow_def renderOf_def add.commute)
qed

lemma editorInsertChar_in_row:
  assumes "0 \<le> cy E" "cy E < numrows E" "0 \<le> cx E" "cx E \<le> row_size (row E ! nat (cy E))"
  shows "editorInsertChar c E =
    Some (E\<lparr>row := (row E)[nat (cy E) := editorUpdateRow ((row E ! nat (cy E))
                \<lparr>chars := take (nat (cx E)) (chars (row E ! nat (cy E))) @ [char_of c]
                         @ drop (nat (cx E)) (chars (row E ! nat (cy E)))\<rparr>)],
             dirty := dirty E + 1, cx := cx E + 1\<rparr>)"
proof -
  have n: "(cy E = numrows E) = False" using assms by simp
  show ?thesis
    using assms
    by (simp add: editorInsertChar_def n editorRowInsertChar_def row_at_Some Let_def)
qed

lemma editorInsertNewline_col0:
  assumes "cx E = 0" "0 \<le> cy E" "cy E \<le> numrows E"
  shows "editorInsertNewline E =
    Some (E\<lparr>row := take (nat (cy E)) (row E) @ [editorUpdateRow \<lparr>chars = [], render = []\<rparr>]
                    @ drop (nat (cy E)) (row E),
             dirty := dirty E + 1, cy := cy E + 1, cx := 0\<rparr>)"
  using assms by (simp add: editorInsertNewline_def editorInsertRow_def Let_def)

lemma editorInsertNewline_split:
  assumes "0 \<le> cy E" "cy E < numrows E" "0 < cx E" "cx E \<le> row_size (row E ! nat (cy E))"
  shows "editorInsertNewline E =
    Some (E\<lparr>row := take (nat (cy E)) (row E)
                    @ [editorUpdateRow ((row E ! nat (cy E))
                         \<lparr>chars := take (nat (cx E)) (chars (row E ! nat (cy E)))\<rparr>),
                       editorUpdateRow \<lparr>chars = drop (nat (cx E)) (chars (row E ! nat (cy E))),
                                        render = []\<rparr>]
                    @ drop (nat (cy E) + 1) (row E),
             dirty := dirty E + 1, cy := cy E + 1, cx := 0\<rparr>)"
proof -
  define i where "i = nat (cy E)"
  have i: "i < length (row E)" "nat (cy E + 1) = Suc i" "cy E = int i"
    using assms by (simp_all add: i_def numrows_def)
  have n: "(cx E = 0) = False" "(cx E < 0) = False"
    "(row_size (row E ! i) < cx E) = False"
    using assms by (simp_all add: i_def)
  have t: "take (Suc i) (row E) = take i (row E) @ [row E ! i]"
    using i by (simp add: take_Suc_conv_app_nth)
  have r: "row_at E (int i) = Some (row E ! i)"
    using i by (simp add: row_at_def numrows_def)
  show ?thesis
    using i
    apply (simp add: editorInsertNewline_def n i_def[symmetric] r Let_def)
    apply (simp add: editorInsertRow_def numrows_def row_at_def t nth_append
        list_update_append)
    done
qed

lemma cursor_ok_InsertChar:
  assumes "cursor_ok E"
  shows "\<exists>E'. editorInsertChar c E = Some E' \<and> cursor_ok E'"
proof (cases "cy E = numrows E")
  case True
  then have "cx E = 0" using assms by (simp add: cursor_ok_def)
  then show ?thesis
    using True assms
    by (simp add: editorInsertChar_at_end cursor_ok_def numrows_def row_size_def)
next
  case False
  then have h: "0 \<le> cy E" "cy E < numrows E" "0 \<le> cx E" "cx E \<le> row_size (row E ! nat (cy E))"
    using assms by (simp_all add: cursor_ok_def)
  then have "nat (cy E) < length (row E)" by (simp add: numrows_def)
  then show ?thesis
    using h
    by (simp add: editorInsertChar_in_row cursor_ok_def numrows_def row_size_def)
qed

lemma cursor_ok_InsertNewline:
  assumes "cursor_ok E"
  shows "\<exists>E'. editorInsertNewline E = Some E' \<and> cursor_ok E'"
proof (cases "cx E = 0")
  case True
  have h: "0 \<le> cy E" "cy E \<le> numrows E" using assms by (simp_all add: cursor_ok_def)
  then show ?thesis
    using True by (simp add: editorInsertNewline_col0 cursor_ok_def numrows_def)
next
  case False
  then have h: "0 \<le> cy E" "cy E < numrows E" "0 < cx E" "cx E \<le> row_size (row E ! nat (cy E))"
    using assms by (auto simp add: cursor_ok_def split: if_splits)
  then show ?thesis
    by (simp add: editorInsertNewline_split cursor_ok_def numrows_def)
qed

lemma cursor_ok_DeleteChar:
  assumes "cursor_ok E"
  shows "\<exists>E'. editorDeleteChar E = Some E' \<and> cursor_ok E'"
proof -
  have "0 \<le> cy E" "cy E \<le> numrows E" "0 \<le> cx E"
    using assms by (simp_all add: cursor_ok_def)
  then consider (e) "cy E = numrows E" | (s) "cx E = 0" "cy E = 0"
    | (r) "cy E < numrows E" "0 < cx E" | (j) "cy E < numrows E" "cx E = 0" "0 < cy E"
    by atomize_elim arith
  then show ?thesis
  proof cases
    case e
    then show ?thesis using assms by (simp add: editorDeleteChar_at_end)
  next
    case s
    then show ?thesis using assms by (simp add: editorDeleteChar_at_start)
  next
    case r
    then have h: "0 \<le> cy E" "cx E \<le> row_size (row E ! nat (cy E))"
      using assms by (simp_all add: cursor_ok_def)
    have "nat (cy E) < length (row E)" using r h by (simp add: numrows_def)
    then show ?thesis
      using r h
      by (simp add: editorDeleteChar_in_row cursor_ok_def numrows_def row_size_def)
  next
    case j
    define i where "i = nat (cy E - 1)"
    have i: "nat (cy E) = Suc i" "Suc i < length (row E)" "cy E - 1 = int i"
      using j by (simp_all add: i_def numrows_def)
    show ?thesis
      using j i
      by (simp add: editorDeleteChar_join cursor_ok_def numrows_def row_size_def
          nth_append i_def[symmetric])
  qed
qed

lemma cursor_ok_apply_edit:
  "cursor_ok E \<Longrightarrow> \<exists>E'. apply_edit x E = Some E' \<and> cursor_ok E'"
  by (cases x) (simp_all add: cursor_ok_InsertChar cursor_ok_InsertNewline cursor_ok_DeleteChar)

lemma cursor_ok_run_edits:
  "cursor_ok E \<Longrightarrow> \<exists>E'. run_edits xs E = Some E' \<and> cursor_ok E'"
proof (induction xs arbitrary: E)
  case Nil
  then show ?case by simp
next
  case (Cons x xs)
  from cursor_ok_apply_edit[OF Cons.prems, of x] obtain E1 where
    a: "apply_edit x E = Some E1" and b: "cursor_ok E1" by blast
  from Cons.IH[OF b] show ?case by (simp add: a)
qed

section \<open>Operations that leave the lines alone; the states of a run\<close>

lemma row_editorScroll: "editorScroll E = Some E' \<Longrightarrow> row E' = row E"
  by (auto simp: editorScroll_def Let_def split: option.splits if_splits)

lemma row_move_switch: "move_switch key E = Some E' \<Longrightarrow> row E' = row E"
  by (auto simp: move_switch_def Let_def split: option.splits if_splits)

lemma row_snap_cx: "snap_cx E = Some E' \<Longrightarrow> row E' = row E"
  by (auto simp: snap_cx_def Let_def split: option.splits if_splits)

lemma row_editorMoveCursor:
  assumes "editorMoveCursor key E = Some E'"
  shows "row E' = row E"
proof -
  from assms obtain E1 where a: "move_switch key E = Some E1" and b: "snap_cx E1 = Some E'"
    by (auto simp: editorMoveCursor_def split: option.splits)
  show ?thesis
    using row_move_switch[OF a] row_snap_cx[OF b] by simp
qed

lemma row_move_times: "move_times n key E = Some E' \<Longrightarrow> row E' = row E"
proof (induction n arbitrary: E)
  case 0
  then show ?case by simp
next
  case (Suc n)
  from Suc.prems obtain E1 where
    a: "editorMoveCursor key E = Some E1" and b: "move_times n key E1 = Some E'"
    by (auto split: option.splits)
  show ?case
    using Suc.IH[OF b] row_editorMoveCursor[OF a] by simp
qed

lemma row_page_move: "page_move c E = Some E' \<Longrightarrow> row E' = row E"
  unfolding page_move_def Let_def
  by (auto split: if_splits dest!: row_move_times)

lemma row_editorPrompt_loop:
  "editorPrompt_loop buf inp E = Returns (res, inp', E') \<Longrightarrow> row E' = row E"
proof (induction buf inp E rule: editorPrompt_loop.induct)
  case (1 buf inp E)
  from "1.prems" obtain E1 where
    e1: "editorRefreshScreen (E\<lparr>statusmsg := MsgPrompt buf\<rparr>) = Some E1"
    by (subst (asm) editorPrompt_loop.simps) (auto split: option.splits)
  have r1: "row E1 = row E"
    using e1 row_editorScroll[of "E\<lparr>statusmsg := MsgPrompt buf\<rparr>" E1]
    by (simp add: editorRefreshScreen_def)
  from "1.prems" e1 obtain c inp1 where
    k: "editorReadKey inp = Returns (c, inp1)"
    by (subst (asm) editorPrompt_loop.simps) (auto split: option.splits outcome.splits)
  let ?buf1 = "prompt_erase c buf"
  have unf: "editorPrompt_loop buf inp E =
     (if c = ESC then Returns (None, inp1, E1\<lparr>statusmsg := MsgNone\<rparr>)
      else if c = ENTER then
        (if ?buf1 \<noteq> [] then Returns (Some ?buf1, inp1, E1\<lparr>statusmsg := MsgNone\<rparr>)
         else editorPrompt_loop ?buf1 inp1 E1)
      else
        (case iscntrl c of
           None \<Rightarrow> UB
         | Some ctl \<Rightarrow>
             if \<not> ctl \<and> c < 128 then editorPrompt_loop (?buf1 @ [char_of c]) inp1 E1
             else editorPrompt_loop ?buf1 inp1 E1))"
    by (subst editorPrompt_loop.simps) (simp add: e1 k Let_def)
  show ?case
  proof (cases "c = ESC")
    case True
    then show ?thesis using "1.prems" unf r1 by auto
  next
    case nesc: False
    show ?thesis
    proof (cases "c = ENTER")
      case True
      show ?thesis
      proof (cases "?buf1 \<noteq> []")
        case True
        then show ?thesis using "1.prems" unf r1 nesc \<open>c = ENTER\<close> by auto
      next
        case False
        then have "editorPrompt_loop ?buf1 inp1 E1 = Returns (res, inp', E')"
          using "1.prems" unf nesc \<open>c = ENTER\<close> by simp
        then have "row E' = row E1"
          using "1.IH"(1)[OF e1 k refl refl nesc \<open>c = ENTER\<close>] False by simp
        then show ?thesis by (simp add: r1)
      qed
    next
      case nent: False
      then obtain ctl where ctl: "iscntrl c = Some ctl"
        using "1.prems" unf nesc by (auto split: option.splits)
      show ?thesis
      proof (cases "\<not> ctl \<and> c < 128")
        case True
        then have "editorPrompt_loop (?buf1 @ [char_of c]) inp1 E1 = Returns (res, inp', E')"
          using "1.prems" unf nesc nent ctl by simp
        then have "row E' = row E1"
          using "1.IH"(2)[OF e1 k refl refl nesc nent ctl True] by simp
        then show ?thesis by (simp add: r1)
      next
        case False
        then have "editorPrompt_loop ?buf1 inp1 E1 = Returns (res, inp', E')"
          using "1.prems" unf nesc nent ctl by auto
        then have "row E' = row E1"
          using "1.IH"(3)[OF e1 k refl refl nesc nent ctl False] by simp
        then show ?thesis by (simp add: r1)
      qed
    qed
  qed
qed

lemma row_save_write: "row (save_write io E) = row E"
  by (simp add: save_write_def Let_def split: prod.splits)

lemma row_editorSave:
  assumes "editorSave io inp E = Returns (inp', E')"
  shows "row E' = row E"
proof (cases "filename E = None")
  case False
  then show ?thesis
    using assms by (auto simp: editorSave_def row_save_write)
next
  case True
  then obtain name inp1 E1 where
    p: "editorPrompt_loop [] inp E = Returns (name, inp1, E1)"
    using assms by (auto simp: editorSave_def editorPrompt_def split: outcome.splits)
  have r: "row E1 = row E" using p by (rule row_editorPrompt_loop)
  show ?thesis
    using assms True p r
    by (auto simp: editorSave_def editorPrompt_def Let_def row_save_write split: if_splits)
qed


lemma rows_in_sync_editorOpen_loop:
  "rows_in_sync E \<Longrightarrow> rows_in_sync (editorOpen_loop ls E)"
  by (induction ls arbitrary: E) (simp_all add: rows_in_sync_InsertRow)

lemma rows_in_sync_initEditor: "rows_in_sync (initEditor ws_row ws_col)"
  by (simp add: rows_in_sync_def initEditor_def)

lemma rows_in_sync_editorOpen:
  assumes "editorOpen name content (initEditor ws_row ws_col) = Returns E"
  shows "rows_in_sync E"
proof -
  from assms obtain bytes where
    "E = (editorOpen_loop (getlines bytes) ((initEditor ws_row ws_col)\<lparr>filename := Some name\<rparr>))
           \<lparr>dirty := 0\<rparr>"
    by (auto simp: editorOpen_def Let_def split: option.splits)
  moreover have "rows_in_sync ((initEditor ws_row ws_col)\<lparr>filename := Some name\<rparr>)"
    by (simp add: rows_in_sync_def initEditor_def)
  ultimately show ?thesis
    using rows_in_sync_editorOpen_loop[of "(initEditor ws_row ws_col)\<lparr>filename := Some name\<rparr>"
        "getlines bytes"]
    by (simp add: rows_in_sync_def)
qed

lemma after_switch_Returns:
  "after_switch r = Returns (inp', E')
   \<Longrightarrow> \<exists>E1. r = Returns (inp', E1) \<and> E' = E1\<lparr>quit_times := KILO_QUIT_TIMES\<rparr>"
  by (auto simp: after_switch_def split: outcome.splits)

lemma continue_Returns:
  "continue inp x = Returns (inp', E') \<Longrightarrow> x = Some E' \<and> inp' = inp"
  by (auto simp: continue_def split: option.splits)

lemma rows_in_sync_quit_times [simp]:
  "rows_in_sync (E\<lparr>quit_times := q\<rparr>) = rows_in_sync E"
  by (simp add: rows_in_sync_def)

lemma rows_in_sync_ProcessKey:
  assumes "rows_in_sync E" "editorProcessKey io c inp E = Returns (inp', E')"
  shows "rows_in_sync E'"
proof -
  have same: "rows_in_sync E1" if "row E1 = row E" for E1
    using that assms(1) by (simp add: rows_in_sync_def)
  consider (enter) "c = ENTER"
    | (quit) "c \<noteq> ENTER" "c = CTRL_KEY CHR ''q''"
    | (save) "c \<noteq> ENTER" "c \<noteq> CTRL_KEY CHR ''q''" "c = CTRL_KEY CHR ''s''"
    | (home) "c \<noteq> ENTER" "c \<noteq> CTRL_KEY CHR ''q''" "c \<noteq> CTRL_KEY CHR ''s''" "c = HOME_KEY"
    | (endk) "c \<noteq> ENTER" "c \<noteq> CTRL_KEY CHR ''q''" "c \<noteq> CTRL_KEY CHR ''s''" "c \<noteq> HOME_KEY"
        "c = END_KEY"
    | (del) "c \<noteq> ENTER" "c \<noteq> CTRL_KEY CHR ''q''" "c \<noteq> CTRL_KEY CHR ''s''" "c \<noteq> HOME_KEY"
        "c \<noteq> END_KEY" "c = BACKSPACE \<or> c = CTRL_KEY CHR ''h'' \<or> c = DEL_KEY"
    | (page) "c \<noteq> ENTER" "c \<noteq> CTRL_KEY CHR ''q''" "c \<noteq> CTRL_KEY CHR ''s''" "c \<noteq> HOME_KEY"
        "c \<noteq> END_KEY" "\<not> (c = BACKSPACE \<or> c = CTRL_KEY CHR ''h'' \<or> c = DEL_KEY)"
        "c = PAGE_UP \<or> c = PAGE_DOWN"
    | (arrow) "c \<noteq> ENTER" "c \<noteq> CTRL_KEY CHR ''q''" "c \<noteq> CTRL_KEY CHR ''s''" "c \<noteq> HOME_KEY"
        "c \<noteq> END_KEY" "\<not> (c = BACKSPACE \<or> c = CTRL_KEY CHR ''h'' \<or> c = DEL_KEY)"
        "\<not> (c = PAGE_UP \<or> c = PAGE_DOWN)"
        "c = ARROW_UP \<or> c = ARROW_DOWN \<or> c = ARROW_LEFT \<or> c = ARROW_RIGHT"
    | (nop) "c \<noteq> ENTER" "c \<noteq> CTRL_KEY CHR ''q''" "c \<noteq> CTRL_KEY CHR ''s''" "c \<noteq> HOME_KEY"
        "c \<noteq> END_KEY" "\<not> (c = BACKSPACE \<or> c = CTRL_KEY CHR ''h'' \<or> c = DEL_KEY)"
        "\<not> (c = PAGE_UP \<or> c = PAGE_DOWN)"
        "\<not> (c = ARROW_UP \<or> c = ARROW_DOWN \<or> c = ARROW_LEFT \<or> c = ARROW_RIGHT)"
        "c = CTRL_KEY CHR ''l'' \<or> c = ESC"
    | (ins) "c \<noteq> ENTER" "c \<noteq> CTRL_KEY CHR ''q''" "c \<noteq> CTRL_KEY CHR ''s''" "c \<noteq> HOME_KEY"
        "c \<noteq> END_KEY" "\<not> (c = BACKSPACE \<or> c = CTRL_KEY CHR ''h'' \<or> c = DEL_KEY)"
        "\<not> (c = PAGE_UP \<or> c = PAGE_DOWN)"
        "\<not> (c = ARROW_UP \<or> c = ARROW_DOWN \<or> c = ARROW_LEFT \<or> c = ARROW_RIGHT)"
        "\<not> (c = CTRL_KEY CHR ''l'' \<or> c = ESC)"
    by blast
  then show ?thesis
  proof cases
    case enter
    then have "after_switch (continue inp (editorInsertNewline E)) = Returns (inp', E')"
      using assms(2) by (simp add: editorProcessKey_def)
    then obtain E1 where "editorInsertNewline E = Some E1" "E' = E1\<lparr>quit_times := KILO_QUIT_TIMES\<rparr>"
      by (auto dest!: after_switch_Returns continue_Returns)
    then show ?thesis
      using rows_in_sync_InsertNewline[OF assms(1)] by simp
  next
    case quit
    then show ?thesis
      using assms by (auto simp: editorProcessKey_def rows_in_sync_def split: if_splits)
  next
    case save
    then have "after_switch (editorSave io inp E) = Returns (inp', E')"
      using assms(2) by (simp add: editorProcessKey_def)
    then obtain E1 where "editorSave io inp E = Returns (inp', E1)"
      "E' = E1\<lparr>quit_times := KILO_QUIT_TIMES\<rparr>"
      by (auto dest!: after_switch_Returns)
    then show ?thesis
      using same[OF row_editorSave] by simp
  next
    case home
    then have "after_switch (Returns (inp, E\<lparr>cx := 0\<rparr>)) = Returns (inp', E')"
      using assms(2) by (simp add: editorProcessKey_def)
    then show ?thesis
      using assms(1) by (auto simp: after_switch_def rows_in_sync_def)
  next
    case endk
    then have "after_switch
          (if cy E < numrows E then
             (case row_at E (cy E) of
                None \<Rightarrow> UB
              | Some r \<Rightarrow> Returns (inp, E\<lparr>cx := row_size r\<rparr>))
           else Returns (inp, E)) = Returns (inp', E')"
      using assms(2) by (simp add: editorProcessKey_def)
    then show ?thesis
      using assms(1)
      by (auto simp: after_switch_def rows_in_sync_def split: if_splits option.splits outcome.splits)
  next
    case del
    then have "after_switch
          (continue inp
             (case (if c = DEL_KEY then editorMoveCursor ARROW_RIGHT E else Some E) of
                None \<Rightarrow> None
              | Some E1 \<Rightarrow> editorDeleteChar E1)) = Returns (inp', E')"
      using assms(2) by (simp add: editorProcessKey_def)
    then obtain E0 E1 where
      m: "(if c = DEL_KEY then editorMoveCursor ARROW_RIGHT E else Some E) = Some E0"
      and d: "editorDeleteChar E0 = Some E1" and e: "E' = E1\<lparr>quit_times := KILO_QUIT_TIMES\<rparr>"
      by (auto dest!: after_switch_Returns continue_Returns split: option.splits)
    have "row E0 = row E"
      using m by (auto split: if_splits dest: row_editorMoveCursor)
    then have "rows_in_sync E0" by (rule same)
    then show ?thesis
      using rows_in_sync_DeleteChar[OF _ d] e by simp
  next
    case page
    then have "after_switch (continue inp (page_move c E)) = Returns (inp', E')"
      using assms(2) by (simp add: editorProcessKey_def)
    then obtain E1 where "page_move c E = Some E1" "E' = E1\<lparr>quit_times := KILO_QUIT_TIMES\<rparr>"
      by (auto dest!: after_switch_Returns continue_Returns)
    then show ?thesis
      using same[OF row_page_move] by simp
  next
    case arrow
    then have "after_switch (continue inp (editorMoveCursor c E)) = Returns (inp', E')"
      using assms(2) by (simp add: editorProcessKey_def)
    then obtain E1 where "editorMoveCursor c E = Some E1" "E' = E1\<lparr>quit_times := KILO_QUIT_TIMES\<rparr>"
      by (auto dest!: after_switch_Returns continue_Returns)
    then show ?thesis
      using same[OF row_editorMoveCursor] by simp
  next
    case nop
    then have "after_switch (Returns (inp, E)) = Returns (inp', E')"
      using assms(2) by (simp add: editorProcessKey_def)
    then show ?thesis
      using assms(1) by (auto simp: after_switch_def)
  next
    case ins
    then have "after_switch (continue inp (editorInsertChar c E)) = Returns (inp', E')"
      using assms(2) by (simp add: editorProcessKey_def)
    then obtain E1 where "editorInsertChar c E = Some E1" "E' = E1\<lparr>quit_times := KILO_QUIT_TIMES\<rparr>"
      by (auto dest!: after_switch_Returns continue_Returns)
    then show ?thesis
      using rows_in_sync_InsertChar[OF assms(1)] by simp
  qed
qed

lemma rows_in_sync_ProcessKeypress:
  assumes "rows_in_sync E" "editorProcessKeypress io inp E = Returns (inp', E')"
  shows "rows_in_sync E'"
proof -
  from assms(2) obtain c inp1 where "editorProcessKey io c inp1 E = Returns (inp', E')"
    by (auto simp: editorProcessKeypress_def split: outcome.splits)
  then show ?thesis
    using assms(1) by (rule rows_in_sync_ProcessKey[rotated])
qed

lemma reachable_rows_in_sync: "reachable E \<Longrightarrow> rows_in_sync E"
proof (induction rule: reachable.induct)
  case (start ws_row ws_col)
  then show ?case by (simp add: rows_in_sync_def initEditor_def)
next
  case (start_file name content ws_row ws_col E)
  then show ?case
    using rows_in_sync_editorOpen by (simp add: rows_in_sync_def)
next
  case (refresh E E')
  then show ?case
    using row_editorScroll[of E E'] by (simp add: rows_in_sync_def editorRefreshScreen_def)
next
  case (keypress E io inp inp' E')
  then show ?case
    using rows_in_sync_ProcessKeypress by blast
qed

lemma editorUpdateRow_eq: "editorUpdateRow r = \<lparr>chars = chars r, render = renderOf (chars r)\<rparr>"
  by (simp add: editorUpdateRow_def renderOf_def render_loop_renderOf)

section \<open>The Delete key\<close>

lemma editorReadKey_delete:
  "editorReadKey (Byte CHR 0x1B # Byte CHR ''['' # Byte CHR ''3'' # Byte CHR ''~'' # rest)
   = Returns (DEL_KEY, rest)"
  by (simp add: editorReadKey_def read_escape_def escape_tilde_def is_digit_def char_to_int_def)

lemma editorProcessKey_DEL:
  "editorProcessKey io DEL_KEY inp E
   = after_switch (continue inp
       (case editorMoveCursor ARROW_RIGHT E of None \<Rightarrow> None | Some E1 \<Rightarrow> editorDeleteChar E1))"
  by (simp add: editorProcessKey_def key_defs)

lemma row_size_not_neg [simp]: "(row_size r < 0) = False"
  by (simp add: row_size_def)

lemma editorMoveCursor_right_in_row:
  assumes "0 \<le> cy E" "cy E < numrows E" "cx E < row_size (row E ! nat (cy E))"
  shows "editorMoveCursor ARROW_RIGHT E = Some (E\<lparr>cx := cx E + 1\<rparr>)"
  using assms
  by (simp add: editorMoveCursor_def move_switch_def cur_row_size_def snap_cx_def row_at_def
      numrows_def key_defs Let_def)

lemma editorMoveCursor_right_at_end:
  assumes "0 \<le> cy E" "cy E < numrows E" "cx E = row_size (row E ! nat (cy E))"
  shows "editorMoveCursor ARROW_RIGHT E = Some (E\<lparr>cy := cy E + 1, cx := 0\<rparr>)"
  using assms
  by (simp add: editorMoveCursor_def move_switch_def cur_row_size_def snap_cx_def row_at_def
      numrows_def key_defs Let_def)


section \<open>Moving down\<close>

lemma move_switch_down:
  "move_switch ARROW_DOWN E = Some (if cx E < numrows E then E\<lparr>cy := cy E + 1\<rparr> else E)"
  by (simp add: move_switch_def key_defs)

lemma snap_cx_cy: "snap_cx E = Some E' \<Longrightarrow> cy E' = cy E"
  by (auto simp: snap_cx_def Let_def split: option.splits if_splits)

lemma snap_cx_defined: "0 \<le> cy E \<Longrightarrow> \<exists>E'. snap_cx E = Some E'"
  by (simp add: snap_cx_def cur_row_size_def row_at_def Let_def)

section \<open>Scrolling: the clamps\<close>

lemma editorScroll_eq:
  "editorScroll E =
     (case cursor_rx E of
        None \<Rightarrow> None
      | Some x \<Rightarrow> Some (E\<lparr>rx := x,
                          rowoff := clamp_offset (cy E) (rowoff E) (screenrows E),
                          coloff := clamp_offset x (coloff E) (screencols E)\<rparr>))"
  by (simp add: editorScroll_def cursor_rx_def clamp_offset_def Let_def split: option.splits)

lemma cursor_rx_cong:
  "cx E' = cx E \<Longrightarrow> cy E' = cy E \<Longrightarrow> row E' = row E \<Longrightarrow> cursor_rx E' = cursor_rx E"
  by (simp add: cursor_rx_def numrows_def row_at_def)

lemma clamp_offset_idem:
  "clamp_offset pos (clamp_offset pos off extent) extent = clamp_offset pos off extent"
  by (simp add: clamp_offset_def Let_def)

lemma clamp_offset_visible:
  "off \<le> pos \<Longrightarrow> pos < off + extent \<Longrightarrow> clamp_offset pos off extent = off"
  by (simp add: clamp_offset_def Let_def)

lemma clamp_offset_in_view:
  "0 < extent \<Longrightarrow> clamp_offset pos off extent \<le> pos \<and> pos < clamp_offset pos off extent + extent"
  by (simp add: clamp_offset_def Let_def)

lemma clamp_offset_next: "clamp_offset (off + extent) off extent = off + 1"
  by (simp add: clamp_offset_def Let_def)

lemma cursor_rx_defined:
  assumes "cursor_ok E"
  shows "\<exists>x. cursor_rx E = Some x"
proof (cases "cy E < numrows E")
  case False
  then show ?thesis by (simp add: cursor_rx_def)
next
  case True
  then have "0 \<le> cy E" "0 \<le> cx E" "cx E \<le> row_size (row E ! nat (cy E))"
    using assms by (simp_all add: cursor_ok_def)
  then show ?thesis
    using True by (simp add: cursor_rx_def row_at_def editorRowCxtoRx_spec)
qed


section \<open>The key decoder\<close>

lemma editorReadKey_escape:
  "editorReadKey (Byte CHR 0x1B # inp) = Returns (read_escape inp)"
  by (simp add: editorReadKey_def)

lemma editorReadKey_table:
  "\<forall>(seq, k) \<in> set escape_table.
     editorReadKey (Byte CHR 0x1B # map Byte seq @ rest) = Returns (k, rest)"
  by (simp add: escape_table_def editorReadKey_escape read_escape_def escape_tilde_def
      escape_bracket_def escape_O_def is_digit_def char_to_int_def)

lemma editorReadKey_literal:
  "c \<noteq> CHR 0x1B \<Longrightarrow> editorReadKey (Byte c # rest) = Returns (char_to_int c, rest)"
  by (simp add: editorReadKey_def)

lemma editorReadKey_wait:
  "editorReadKey (Timeout # inp) = editorReadKey inp"
  "editorReadKey (Error True # inp) = editorReadKey inp"
  by (simp_all add: editorReadKey_def)

lemma not_in_table:
  assumes "\<forall>(seq, k) \<in> set escape_table. \<not> prefix (map Byte seq) inp"
  shows "fst (read_escape inp) = ESC"
proof -
  have t: "\<not> prefix (map Byte seq) inp" if "(seq, k) \<in> set escape_table" for seq k
    using assms that by blast
  show ?thesis
  proof (cases inp)
    case Nil
    then show ?thesis by (simp add: read_escape_def)
  next
    case (Cons x0 inp1)
    show ?thesis
    proof (cases x0)
      case Timeout
      then show ?thesis using Cons by (simp add: read_escape_def)
    next
      case (Error e)
      then show ?thesis using Cons by (simp add: read_escape_def)
    next
      case (Byte s0)
      show ?thesis
      proof (cases inp1)
        case Nil
        then show ?thesis using Cons Byte by (simp add: read_escape_def)
      next
        case c1: (Cons x1 inp2)
        show ?thesis
        proof (cases x1)
          case Timeout
          then show ?thesis using Cons Byte c1 by (simp add: read_escape_def)
        next
          case (Error e)
          then show ?thesis using Cons Byte c1 by (simp add: read_escape_def)
        next
          case b1: (Byte s1)
          have two: "\<not> (s0 = CHR ''['' \<and> s1 = CHR ''A'')" "\<not> (s0 = CHR ''['' \<and> s1 = CHR ''B'')"
            "\<not> (s0 = CHR ''['' \<and> s1 = CHR ''C'')" "\<not> (s0 = CHR ''['' \<and> s1 = CHR ''D'')"
            "\<not> (s0 = CHR ''['' \<and> s1 = CHR ''H'')" "\<not> (s0 = CHR ''['' \<and> s1 = CHR ''F'')"
            "\<not> (s0 = CHR ''O'' \<and> s1 = CHR ''H'')" "\<not> (s0 = CHR ''O'' \<and> s1 = CHR ''F'')"
            using t[of "''[A''" ARROW_UP] t[of "''[B''" ARROW_DOWN] t[of "''[C''" ARROW_RIGHT]
              t[of "''[D''" ARROW_LEFT] t[of "''[H''" HOME_KEY] t[of "''[F''" END_KEY]
              t[of "''OH''" HOME_KEY] t[of "''OF''" END_KEY]
            by (auto simp add: escape_table_def Cons Byte c1 b1)
          have three: "\<not> (s0 = CHR ''['' \<and> s1 = d \<and> s2 = CHR ''~'')"
            if "inp2 = Byte s2 # inp3" "d \<in> {CHR ''1'', CHR ''3'', CHR ''4'', CHR ''5'', CHR ''6'', CHR ''7'', CHR ''8''}"
            for s2 inp3 d
            using that t[of "''[1~''" HOME_KEY] t[of "''[3~''" DEL_KEY] t[of "''[4~''" END_KEY]
              t[of "''[5~''" PAGE_UP] t[of "''[6~''" PAGE_DOWN] t[of "''[7~''" HOME_KEY]
              t[of "''[8~''" END_KEY]
            by (auto simp add: escape_table_def Cons Byte c1 b1)
          show ?thesis
          proof (cases "s0 = CHR ''[''")
            case False
            then show ?thesis
              using Cons Byte c1 b1 two by (simp add: read_escape_def escape_O_def)
          next
            case br: True
            show ?thesis
            proof (cases "is_digit s1")
              case False
              then show ?thesis
                using Cons Byte c1 b1 two br by (simp add: read_escape_def escape_bracket_def)
            next
              case dg: True
              show ?thesis
              proof (cases inp2)
                case Nil
                then show ?thesis using Cons Byte c1 b1 br dg by (simp add: read_escape_def)
              next
                case c2: (Cons x2 inp3)
                show ?thesis
                proof (cases x2)
                  case Timeout
                  then show ?thesis using Cons Byte c1 b1 br dg c2 by (simp add: read_escape_def)
                next
                  case (Error e)
                  then show ?thesis using Cons Byte c1 b1 br dg c2 by (simp add: read_escape_def)
                next
                  case b2: (Byte s2)
                  show ?thesis
                  proof (cases "s2 = CHR ''~''")
                    case False
                    then show ?thesis
                      using Cons Byte c1 b1 br dg c2 b2 by (simp add: read_escape_def)
                  next
                    case True
                    have "s1 \<notin> {CHR ''1'', CHR ''3'', CHR ''4'', CHR ''5'', CHR ''6'', CHR ''7'', CHR ''8''}"
                      using three[of s2 inp3 s1] c2 b2 br True by blast
                    then have "escape_tilde s1 = ESC"
                      by (simp add: escape_tilde_def)
                    then show ?thesis
                      using Cons Byte c1 b1 br dg c2 b2 True by (simp add: read_escape_def)
                  qed
                qed
              qed
            qed
          qed
        qed
      qed
    qed
  qed
qed


section \<open>Loading and saving\<close>

lemma rows_copy_eq: "rows_copy rs buf = buf @ join_lines (map chars rs)"
  by (induction rs arbitrary: buf) (simp_all add: join_lines_def)

lemma rows_totlen_eq: "rows_totlen rs n = n + int (length (join_lines (map chars rs)))"
  by (induction rs arbitrary: n) (simp_all add: join_lines_def row_size_def)

lemma getlines_line:
  "CHR 0x0A \<notin> set l \<Longrightarrow> getlines (l @ CHR 0x0A # rest) = (l @ [CHR 0x0A]) # getlines rest"
  by (induction l) auto

lemma getlines_join:
  "\<forall>l \<in> set ls. CHR 0x0A \<notin> set l \<Longrightarrow> getlines (join_lines ls) = map (\<lambda>l. l @ [CHR 0x0A]) ls"
proof (induction ls)
  case Nil
  then show ?case by (simp add: join_lines_def)
next
  case (Cons l ls)
  have "join_lines (l # ls) = l @ CHR 0x0A # join_lines ls"
    by (simp add: join_lines_def)
  then show ?case
    using Cons by (simp add: getlines_line)
qed

lemma strip_eol_keep:
  "l = [] \<or> (last l \<noteq> CHR 0x0A \<and> last l \<noteq> CHR 0x0D) \<Longrightarrow> strip_eol l = l"
  by (subst strip_eol.simps) auto

lemma strip_eol_newline:
  "l = [] \<or> (last l \<noteq> CHR 0x0A \<and> last l \<noteq> CHR 0x0D) \<Longrightarrow> strip_eol (l @ [CHR 0x0A]) = l"
  by (subst strip_eol.simps) (simp add: strip_eol_keep)

lemma editorInsertRow_append:
  "editorInsertRow (numrows E) s E
   = E\<lparr>row := row E @ [editorUpdateRow \<lparr>chars = s, render = []\<rparr>], dirty := dirty E + 1\<rparr>"
  by (simp add: editorInsertRow_def numrows_def)

lemma chars_editorOpen_loop:
  "map chars (row (editorOpen_loop lines E)) = map chars (row E) @ map strip_eol lines"
  by (induction lines arbitrary: E) (simp_all add: editorInsertRow_append)

lemma editorRowsToString_eq:
  "editorRowsToString E
   = (join_lines (map chars (row E)), int (length (join_lines (map chars (row E)))))"
  by (simp add: editorRowsToString_def rows_copy_eq rows_totlen_eq)

section \<open>Quitting\<close>

lemma editorReadKey_ctrl_q:
  "editorReadKey (Byte CHR 0x11 # rest) = Returns (CTRL_KEY CHR ''q'', rest)"
  by (simp add: editorReadKey_def char_to_int_def CTRL_KEY_def)

lemma editorProcessKey_quit:
  "editorProcessKey io (CTRL_KEY CHR ''q'') inp E =
     (if dirty E \<noteq> 0 \<and> quit_times E > 0
      then Returns (inp, E\<lparr>statusmsg := MsgQuitWarning (quit_times E),
                            quit_times := quit_times E - 1\<rparr>)
      else Exits 0)"
  by (simp add: editorProcessKey_def key_defs)

lemma editorProcessKeypress_quit:
  "editorProcessKeypress io (Byte CHR 0x11 # rest) E =
     (if dirty E \<noteq> 0 \<and> quit_times E > 0
      then Returns (rest, E\<lparr>statusmsg := MsgQuitWarning (quit_times E),
                             quit_times := quit_times E - 1\<rparr>)
      else Exits 0)"
  by (simp only: editorProcessKeypress_def editorReadKey_ctrl_q editorProcessKey_quit
      outcome.case prod.case)

lemma editorScroll_message:
  "editorScroll (E\<lparr>statusmsg := m, quit_times := q\<rparr>)
   = map_option (\<lambda>E'. E'\<lparr>statusmsg := m, quit_times := q\<rparr>) (editorScroll E)"
proof -
  have "cursor_rx (E\<lparr>statusmsg := m, quit_times := q\<rparr>) = cursor_rx E"
    by (rule cursor_rx_cong) simp_all
  then show ?thesis
    by (simp add: editorScroll_eq split: option.splits)
qed

lemma editorScroll_idem: "editorScroll E = Some E' \<Longrightarrow> editorScroll E' = Some E'"
proof -
  assume s: "editorScroll E = Some E'"
  then obtain x where x: "cursor_rx E = Some x"
    and e: "E' = E\<lparr>rx := x,
                   rowoff := clamp_offset (cy E) (rowoff E) (screenrows E),
                   coloff := clamp_offset x (coloff E) (screencols E)\<rparr>"
    by (auto simp: editorScroll_eq split: option.splits)
  have x': "cursor_rx E' = Some x"
    using x cursor_rx_cong[of E' E] by (simp add: e)
  show "editorScroll E' = Some E'"
    by (simp add: editorScroll_eq x') (simp add: e clamp_offset_idem)
qed

lemma editorStep_quit:
  assumes "editorRefreshScreen E = Some E0" "dirty E \<noteq> 0" "0 < quit_times E"
  shows "editorStep io (Byte CHR 0x11 # rest) E
       = Returns (rest, E0\<lparr>statusmsg := MsgQuitWarning (quit_times E),
                            quit_times := quit_times E - 1\<rparr>)"
proof -
  have "dirty E0 = dirty E" "quit_times E0 = quit_times E"
    using assms(1)
    by (auto simp: editorRefreshScreen_def editorScroll_eq split: option.splits)
  then show ?thesis
    using assms by (simp add: editorStep_def editorProcessKeypress_quit)
qed

lemma editorStep_quit_exit:
  assumes "editorRefreshScreen E = Some E0" "quit_times E = 0"
  shows "editorStep io (Byte CHR 0x11 # rest) E = Exits 0"
proof -
  have "quit_times E0 = quit_times E"
    using assms(1)
    by (auto simp: editorRefreshScreen_def editorScroll_eq split: option.splits)
  then show ?thesis
    using assms by (simp add: editorStep_def editorProcessKeypress_quit)
qed

lemma refresh_after_warning:
  assumes "editorRefreshScreen E = Some E0"
  shows "editorRefreshScreen (E0\<lparr>statusmsg := m, quit_times := q\<rparr>)
       = Some (E0\<lparr>statusmsg := m, quit_times := q\<rparr>)"
  using editorScroll_idem[of E E0] assms
  by (simp add: editorRefreshScreen_def editorScroll_message)

lemma ex_after_if:
  "(\<exists>r. y = after_switch r) \<Longrightarrow> \<exists>r. (if b then after_switch x else y) = after_switch r"
  by auto

lemma ex_after: "\<exists>r. after_switch x = after_switch r"
  by blast

lemma editorProcessKey_after_switch:
  assumes "c \<noteq> CTRL_KEY CHR ''q''"
  shows "\<exists>r. editorProcessKey io c inp E = after_switch r"
proof -
  have nq: "(c = CTRL_KEY CHR ''q'') = False"
    using assms by simp
  show ?thesis
    unfolding editorProcessKey_def
    apply (rule ex_after_if)
    apply (simp only: nq if_False)
    apply (intro ex_after_if ex_after)
    done
qed

lemma editorProcessKey_resets:
  assumes "c \<noteq> CTRL_KEY CHR ''q''" "editorProcessKey io c inp E = Returns (inp', E')"
  shows "quit_times E' = KILO_QUIT_TIMES"
proof -
  from editorProcessKey_after_switch[OF assms(1), of io inp E] obtain r where
    "editorProcessKey io c inp E = after_switch r" by blast
  then have "after_switch r = Returns (inp', E')"
    using assms(2) by simp
  then show ?thesis
    by (auto dest!: after_switch_Returns)
qed


section \<open>Claims\<close>

text \<open>
  C5. For every line and every logical column \<open>n\<close> in \<open>[0, line length]\<close>,
  \<^verbatim>\<open>editorRowCxtoRx\<close> returns what the specification's walk over the bytes \<open>[0, n)\<close>
  computes (\<open>(8 - 1) - (acc mod 8)\<close> plus one for a tab byte, one for any other byte);
  a line that is a single tab byte renders as exactly 8 spaces and its column 1 maps to 8;
  and the mapping is monotonic in the column.
\<close>

theorem C5_logicalToVisual:
  "(0 \<le> n \<and> n \<le> row_size r \<longrightarrow> editorRowCxtoRx r n = Some (logicalToVisual r (nat n)))
   \<and> render (editorUpdateRow \<lparr>chars = [CHR 0x09], render = old\<rparr>) = ''        ''
   \<and> editorRowCxtoRx \<lparr>chars = [CHR 0x09], render = old\<rparr> 1 = Some 8
   \<and> (0 \<le> m \<and> m \<le> n \<and> n \<le> row_size r \<longrightarrow>
        (\<exists>a b. editorRowCxtoRx r m = Some a \<and> editorRowCxtoRx r n = Some b \<and> a \<le> b))"
proof (intro conjI impI)
  assume "0 \<le> n \<and> n \<le> row_size r"
  then show "editorRowCxtoRx r n = Some (logicalToVisual r (nat n))"
    by (simp add: editorRowCxtoRx_spec)
next
  have "pad_to_tab_stop '' '' = ''        ''"
    by (simp add: pad_to_tab_stop.simps KILO_TAB_STOP_def)
  then show "render (editorUpdateRow \<lparr>chars = [CHR 0x09], render = old\<rparr>) = ''        ''"
    by (simp add: editorUpdateRow_def)
next
  show "editorRowCxtoRx \<lparr>chars = [CHR 0x09], render = old\<rparr> 1 = Some 8"
    by (simp add: editorRowCxtoRx_def CxtoRx_loop.simps chars_at_def row_size_def
        KILO_TAB_STOP_def)
next
  assume h: "0 \<le> m \<and> m \<le> n \<and> n \<le> row_size r"
  then have a: "editorRowCxtoRx r m = Some (logicalToVisual r (nat m))"
    and b: "editorRowCxtoRx r n = Some (logicalToVisual r (nat n))"
    by (simp_all add: editorRowCxtoRx_spec)
  have "nat m \<le> nat n"
    using h by arith
  then have "logicalToVisual r (nat m) \<le> logicalToVisual r (nat n)"
    by (rule logicalToVisual_mono)
  then show "\<exists>a b. editorRowCxtoRx r m = Some a \<and> editorRowCxtoRx r n = Some b \<and> a \<le> b"
    using a b by simp
qed

theorem C5_logicalToVisual_witness:
  "editorRowCxtoRx \<lparr>chars = [CHR 0x09, CHR ''a'', CHR 0x09], render = []\<rparr> 3 = Some 16
   \<and> (\<exists>a b. editorRowCxtoRx \<lparr>chars = [CHR 0x09, CHR ''a'', CHR 0x09], render = []\<rparr> 1 = Some a
         \<and> editorRowCxtoRx \<lparr>chars = [CHR 0x09, CHR ''a'', CHR 0x09], render = []\<rparr> 3 = Some b
         \<and> a \<le> b)"
  using C5_logicalToVisual
    [where n = 3 and m = 1 and old = "[]"
       and r = "\<lparr>chars = [CHR 0x09, CHR ''a'', CHR 0x09], render = []\<rparr>"]
  by (auto simp add: row_size_def logicalToVisual_def spec_advance_def)

text \<open>
  C1. For every reachable editor state and every sequence of \<^verbatim>\<open>editorInsertChar\<close>,
  \<^verbatim>\<open>editorDeleteChar\<close> and \<^verbatim>\<open>editorInsertNewline\<close> operations, after each operation
  (after the first \<open>k\<close> operations, for every \<open>k\<close>) the cached render of every line is the
  render recomputed from the line's raw bytes. The first part holds wherever the
  operations are defined; the second part says that they are defined, and keep the
  cursor within the document, from every state whose cursor is within the document.
\<close>

theorem C1_render_cache_consistent:
  assumes "reachable E"
  shows "(\<forall>E'. run_edits (take k ops) E = Some E' \<longrightarrow>
            (\<forall>r \<in> set (row E'). render r = renderOf (chars r)))
       \<and> (cursor_ok E \<longrightarrow>
            (\<exists>E'. run_edits (take k ops) E = Some E' \<and> cursor_ok E'
                  \<and> (\<forall>r \<in> set (row E'). render r = renderOf (chars r))))"
proof -
  have sync: "rows_in_sync E"
    using assms by (rule reachable_rows_in_sync)
  have a: "\<forall>r \<in> set (row E'). render r = renderOf (chars r)"
    if "run_edits (take k ops) E = Some E'" for E'
    using rows_in_sync_run_edits[OF sync that] by (simp add: rows_in_sync_iff row_ok_def)
  have b: "\<exists>E'. run_edits (take k ops) E = Some E' \<and> cursor_ok E'
      \<and> (\<forall>r \<in> set (row E'). render r = renderOf (chars r))" if "cursor_ok E"
  proof -
    from cursor_ok_run_edits[OF that, of "take k ops"] obtain E' where
      "run_edits (take k ops) E = Some E'" "cursor_ok E'" by blast
    then show ?thesis using a by blast
  qed
  show ?thesis using a b by blast
qed

theorem C1_render_cache_consistent_witness:
  "reachable ((initEditor 24 80)\<lparr>statusmsg := MsgHelp\<rparr>)
   \<and> cursor_ok ((initEditor 24 80)\<lparr>statusmsg := MsgHelp\<rparr>)
   \<and> run_edits [InsertChar 9, InsertChar 97, InsertNewline, DeleteCharBackward]
         ((initEditor 24 80)\<lparr>statusmsg := MsgHelp\<rparr>)
       = Some \<lparr>cx = 2, cy = 0, rx = 0, rowoff = 0, coloff = 0, screenrows = 22, screencols = 80,
                row = [\<lparr>chars = [CHR 0x09, CHR ''a''], render = ''        a''\<rparr>], dirty = 6,
                filename = None, statusmsg = MsgHelp, quit_times = 3\<rparr>
   \<and> (\<exists>E'. run_edits (take 4 [InsertChar 9, InsertChar 97, InsertNewline, DeleteCharBackward])
              ((initEditor 24 80)\<lparr>statusmsg := MsgHelp\<rparr>) = Some E'
          \<and> cursor_ok E'
          \<and> (\<forall>r \<in> set (row E'). render r = renderOf (chars r)))"
proof -
  have r: "reachable ((initEditor 24 80)\<lparr>statusmsg := MsgHelp\<rparr>)"
    by (rule reachable.start)
  have c: "cursor_ok ((initEditor 24 80)\<lparr>statusmsg := MsgHelp\<rparr>)"
    by (simp add: cursor_ok_def initEditor_def numrows_def)
  have e: "run_edits [InsertChar 9, InsertChar 97, InsertNewline, DeleteCharBackward]
         ((initEditor 24 80)\<lparr>statusmsg := MsgHelp\<rparr>)
       = Some \<lparr>cx = 2, cy = 0, rx = 0, rowoff = 0, coloff = 0, screenrows = 22, screencols = 80,
                row = [\<lparr>chars = [CHR 0x09, CHR ''a''], render = ''        a''\<rparr>], dirty = 6,
                filename = None, statusmsg = MsgHelp, quit_times = 3\<rparr>"
    by code_simp
  show ?thesis
    using r c e C1_render_cache_consistent
      [OF r, of 4 "[InsertChar 9, InsertChar 97, InsertNewline, DeleteCharBackward]"]
    by blast
qed

text \<open>
  C6. \<^verbatim>\<open>editorDeleteChar\<close>: at row 0, column 0 it leaves the state unchanged; with the
  cursor row equal to the number of lines it leaves the state unchanged; with the cursor
  at a column \<open>cx > 0\<close> of a line it deletes the byte before the cursor (re-rendering the
  line) and decrements the column; at column 0 of a line with a line before it, it
  appends the line to the previous line, deletes the line, and puts the cursor on the
  previous row at the column where the previous line ended.
\<close>

theorem C6_deleteCharBackward:
  "(cx E = 0 \<and> cy E = 0 \<longrightarrow> editorDeleteChar E = Some E)
   \<and> (cy E = numrows E \<longrightarrow> editorDeleteChar E = Some E)
   \<and> (0 \<le> cy E \<and> cy E < numrows E \<and> 0 < cx E \<and> cx E \<le> row_size (row E ! nat (cy E)) \<longrightarrow>
        editorDeleteChar E =
          Some (E\<lparr>row := (row E)[nat (cy E) :=
                          \<lparr>chars = take (nat (cx E) - 1) (chars (row E ! nat (cy E)))
                                   @ drop (nat (cx E)) (chars (row E ! nat (cy E))),
                           render = renderOf (take (nat (cx E) - 1) (chars (row E ! nat (cy E)))
                                   @ drop (nat (cx E)) (chars (row E ! nat (cy E))))\<rparr>],
                   dirty := dirty E + 1,
                   cx := cx E - 1\<rparr>))
   \<and> (cx E = 0 \<and> 0 < cy E \<and> cy E < numrows E \<longrightarrow>
        editorDeleteChar E =
          Some (E\<lparr>row := take (nat (cy E) - 1) (row E)
                          @ [\<lparr>chars = chars (row E ! (nat (cy E) - 1)) @ chars (row E ! nat (cy E)),
                              render = renderOf (chars (row E ! (nat (cy E) - 1))
                                                 @ chars (row E ! nat (cy E)))\<rparr>]
                          @ drop (nat (cy E) + 1) (row E),
                   dirty := dirty E + 2,
                   cx := row_size (row E ! (nat (cy E) - 1)),
                   cy := cy E - 1\<rparr>))"
proof (intro conjI impI)
  assume "cx E = 0 \<and> cy E = 0"
  then show "editorDeleteChar E = Some E"
    by (simp add: editorDeleteChar_at_start)
next
  assume "cy E = numrows E"
  then show "editorDeleteChar E = Some E"
    by (rule editorDeleteChar_at_end)
next
  assume h: "0 \<le> cy E \<and> cy E < numrows E \<and> 0 < cx E \<and> cx E \<le> row_size (row E ! nat (cy E))"
  then have n: "nat (cx E - 1) = nat (cx E) - 1" by simp
  show "editorDeleteChar E =
          Some (E\<lparr>row := (row E)[nat (cy E) :=
                          \<lparr>chars = take (nat (cx E) - 1) (chars (row E ! nat (cy E)))
                                   @ drop (nat (cx E)) (chars (row E ! nat (cy E))),
                           render = renderOf (take (nat (cx E) - 1) (chars (row E ! nat (cy E)))
                                   @ drop (nat (cx E)) (chars (row E ! nat (cy E))))\<rparr>],
                   dirty := dirty E + 1,
                   cx := cx E - 1\<rparr>)"
    using h by (simp add: editorDeleteChar_in_row editorUpdateRow_eq n)
next
  assume h: "cx E = 0 \<and> 0 < cy E \<and> cy E < numrows E"
  then have n: "nat (cy E - 1) = nat (cy E) - 1" by simp
  show "editorDeleteChar E =
          Some (E\<lparr>row := take (nat (cy E) - 1) (row E)
                          @ [\<lparr>chars = chars (row E ! (nat (cy E) - 1)) @ chars (row E ! nat (cy E)),
                              render = renderOf (chars (row E ! (nat (cy E) - 1))
                                                 @ chars (row E ! nat (cy E)))\<rparr>]
                          @ drop (nat (cy E) + 1) (row E),
                   dirty := dirty E + 2,
                   cx := row_size (row E ! (nat (cy E) - 1)),
                   cy := cy E - 1\<rparr>)"
    using h by (simp add: editorDeleteChar_join editorUpdateRow_eq n)
qed

theorem C6_deleteCharBackward_witness:
  "editorDeleteChar (doc2 0 0) = Some (doc2 0 0)
   \<and> editorDeleteChar (doc2 0 2) = Some (doc2 0 2)
   \<and> editorDeleteChar (doc2 1 1)
       = Some ((doc2 0 1)\<lparr>row := [\<lparr>chars = ''ab'', render = ''ab''\<rparr>,
                                   \<lparr>chars = ''d'', render = ''d''\<rparr>], dirty := 1\<rparr>)
   \<and> editorDeleteChar (doc2 0 1)
       = Some ((doc2 2 0)\<lparr>row := [\<lparr>chars = ''abcd'', render = ''abcd''\<rparr>], dirty := 2\<rparr>)"
  using C6_deleteCharBackward[of "doc2 0 0"] C6_deleteCharBackward[of "doc2 0 2"]
    C6_deleteCharBackward[of "doc2 1 1"] C6_deleteCharBackward[of "doc2 0 1"]
  by (simp add: doc2_def numrows_def row_size_def renderOf_def)


text \<open>
  C10. The Delete key (the bytes \<open>ESC [ 3 ~\<close>) is processed as \<^verbatim>\<open>editorMoveCursor(ARROW_RIGHT)\<close>
  followed by \<^verbatim>\<open>editorDeleteChar()\<close>. With the cursor on a line at a column before the end
  of the line, it removes the byte under the cursor and leaves the cursor where it is; with
  the cursor at the end of a line that has a following line, it joins the following line
  onto the end of the current line (the cursor stays).
\<close>

theorem C10_delete_key:
  "editorProcessKeypress io
      (Byte CHR 0x1B # Byte CHR ''['' # Byte CHR ''3'' # Byte CHR ''~'' # inp) E
    = after_switch (continue inp
        (case editorMoveCursor ARROW_RIGHT E of None \<Rightarrow> None | Some E1 \<Rightarrow> editorDeleteChar E1))
   \<and> (0 \<le> cy E \<and> cy E < numrows E \<and> 0 \<le> cx E \<and> cx E < row_size (row E ! nat (cy E)) \<longrightarrow>
        editorProcessKeypress io
          (Byte CHR 0x1B # Byte CHR ''['' # Byte CHR ''3'' # Byte CHR ''~'' # inp) E
        = Returns (inp,
            E\<lparr>row := (row E)[nat (cy E) :=
                      \<lparr>chars = take (nat (cx E)) (chars (row E ! nat (cy E)))
                               @ drop (nat (cx E) + 1) (chars (row E ! nat (cy E))),
                       render = renderOf (take (nat (cx E)) (chars (row E ! nat (cy E)))
                               @ drop (nat (cx E) + 1) (chars (row E ! nat (cy E))))\<rparr>],
               dirty := dirty E + 1,
               quit_times := KILO_QUIT_TIMES\<rparr>))
   \<and> (0 \<le> cy E \<and> cy E + 1 < numrows E \<and> cx E = row_size (row E ! nat (cy E)) \<longrightarrow>
        editorProcessKeypress io
          (Byte CHR 0x1B # Byte CHR ''['' # Byte CHR ''3'' # Byte CHR ''~'' # inp) E
        = Returns (inp,
            E\<lparr>row := take (nat (cy E)) (row E)
                       @ [\<lparr>chars = chars (row E ! nat (cy E)) @ chars (row E ! (nat (cy E) + 1)),
                           render = renderOf (chars (row E ! nat (cy E))
                                              @ chars (row E ! (nat (cy E) + 1)))\<rparr>]
                       @ drop (nat (cy E) + 2) (row E),
               dirty := dirty E + 2,
               quit_times := KILO_QUIT_TIMES\<rparr>))"
proof (intro conjI impI)
  show key: "editorProcessKeypress io
      (Byte CHR 0x1B # Byte CHR ''['' # Byte CHR ''3'' # Byte CHR ''~'' # inp) E
    = after_switch (continue inp
        (case editorMoveCursor ARROW_RIGHT E of None \<Rightarrow> None | Some E1 \<Rightarrow> editorDeleteChar E1))"
    by (simp add: editorProcessKeypress_def editorReadKey_delete editorProcessKey_DEL)
  {
    assume h: "0 \<le> cy E \<and> cy E < numrows E \<and> 0 \<le> cx E \<and> cx E < row_size (row E ! nat (cy E))"
    then have m: "editorMoveCursor ARROW_RIGHT E = Some (E\<lparr>cx := cx E + 1\<rparr>)"
      by (simp add: editorMoveCursor_right_in_row)
    have n: "nat (cx E + 1) = Suc (nat (cx E))" using h by arith
    have d: "editorDeleteChar (E\<lparr>cx := cx E + 1\<rparr>) =
        Some (E\<lparr>row := (row E)[nat (cy E) :=
                      \<lparr>chars = take (nat (cx E)) (chars (row E ! nat (cy E)))
                               @ drop (nat (cx E) + 1) (chars (row E ! nat (cy E))),
                       render = renderOf (take (nat (cx E)) (chars (row E ! nat (cy E)))
                               @ drop (nat (cx E) + 1) (chars (row E ! nat (cy E))))\<rparr>],
               dirty := dirty E + 1\<rparr>)"
      using h
      by (subst editorDeleteChar_in_row) (simp_all add: numrows_def editorUpdateRow_eq n)
    show "editorProcessKeypress io
          (Byte CHR 0x1B # Byte CHR ''['' # Byte CHR ''3'' # Byte CHR ''~'' # inp) E
        = Returns (inp,
            E\<lparr>row := (row E)[nat (cy E) :=
                      \<lparr>chars = take (nat (cx E)) (chars (row E ! nat (cy E)))
                               @ drop (nat (cx E) + 1) (chars (row E ! nat (cy E))),
                       render = renderOf (take (nat (cx E)) (chars (row E ! nat (cy E)))
                               @ drop (nat (cx E) + 1) (chars (row E ! nat (cy E))))\<rparr>],
               dirty := dirty E + 1,
               quit_times := KILO_QUIT_TIMES\<rparr>)"
      by (simp add: key m d continue_def after_switch_def)
  }
  {
    assume h: "0 \<le> cy E \<and> cy E + 1 < numrows E \<and> cx E = row_size (row E ! nat (cy E))"
    then have m: "editorMoveCursor ARROW_RIGHT E = Some (E\<lparr>cy := cy E + 1, cx := 0\<rparr>)"
      by (simp add: editorMoveCursor_right_at_end)
    have n: "nat (cy E + 1) = Suc (nat (cy E))" using h by arith
    have d: "editorDeleteChar (E\<lparr>cy := cy E + 1, cx := 0\<rparr>) =
        Some (E\<lparr>row := take (nat (cy E)) (row E)
                       @ [\<lparr>chars = chars (row E ! nat (cy E)) @ chars (row E ! (nat (cy E) + 1)),
                           render = renderOf (chars (row E ! nat (cy E))
                                              @ chars (row E ! (nat (cy E) + 1)))\<rparr>]
                       @ drop (nat (cy E) + 2) (row E),
               dirty := dirty E + 2\<rparr>)"
      using h
      by (subst editorDeleteChar_join) (simp_all add: numrows_def editorUpdateRow_eq n)
    show "editorProcessKeypress io
          (Byte CHR 0x1B # Byte CHR ''['' # Byte CHR ''3'' # Byte CHR ''~'' # inp) E
        = Returns (inp,
            E\<lparr>row := take (nat (cy E)) (row E)
                       @ [\<lparr>chars = chars (row E ! nat (cy E)) @ chars (row E ! (nat (cy E) + 1)),
                           render = renderOf (chars (row E ! nat (cy E))
                                              @ chars (row E ! (nat (cy E) + 1)))\<rparr>]
                       @ drop (nat (cy E) + 2) (row E),
               dirty := dirty E + 2,
               quit_times := KILO_QUIT_TIMES\<rparr>)"
      by (simp add: key m d continue_def after_switch_def)
  }
qed


theorem C10_delete_key_witness:
  "editorProcessKeypress \<lparr>open_ok = True, ftruncate_ok = True, write_ok = True\<rparr>
      [Byte CHR 0x1B, Byte CHR ''['', Byte CHR ''3'', Byte CHR ''~''] (doc2 0 0)
    = Returns ([], (doc2 0 0)\<lparr>row := [\<lparr>chars = ''b'', render = ''b''\<rparr>,
                                         \<lparr>chars = ''cd'', render = ''cd''\<rparr>], dirty := 1\<rparr>)
   \<and> editorProcessKeypress \<lparr>open_ok = True, ftruncate_ok = True, write_ok = True\<rparr>
      [Byte CHR 0x1B, Byte CHR ''['', Byte CHR ''3'', Byte CHR ''~''] (doc2 2 0)
    = Returns ([], (doc2 2 0)\<lparr>row := [\<lparr>chars = ''abcd'', render = ''abcd''\<rparr>], dirty := 2\<rparr>)"
  using
    C10_delete_key[of "\<lparr>open_ok = True, ftruncate_ok = True, write_ok = True\<rparr>" "[]" "doc2 0 0",
      THEN conjunct2, THEN conjunct1]
    C10_delete_key[of "\<lparr>open_ok = True, ftruncate_ok = True, write_ok = True\<rparr>" "[]" "doc2 2 0",
      THEN conjunct2, THEN conjunct2]
  by (simp add: doc2_def numrows_def row_size_def renderOf_def KILO_QUIT_TIMES_def)


text \<open>
  C9. \<^verbatim>\<open>editorMoveCursor(ARROW_DOWN)\<close> advances the cursor row exactly when the cursor's
  column is less than the number of lines; the row is not compared with the number of
  lines. (With a negative cursor row the function reads outside the array of lines.)
\<close>

theorem C9_move_down_checks_column:
  "(0 \<le> cy E \<longrightarrow>
      (\<exists>E'. editorMoveCursor ARROW_DOWN E = Some E'
            \<and> cy E' = (if cx E < numrows E then cy E + 1 else cy E)))
   \<and> (\<forall>E'. editorMoveCursor ARROW_DOWN E = Some E' \<longrightarrow>
            (cy E' = cy E + 1) = (cx E < numrows E))"
proof (intro conjI impI allI)
  assume h: "0 \<le> cy E"
  let ?E1 = "if cx E < numrows E then E\<lparr>cy := cy E + 1\<rparr> else E"
  have "0 \<le> cy ?E1" using h by simp
  then obtain E' where s: "snap_cx ?E1 = Some E'"
    using snap_cx_defined by blast
  have "cy E' = cy ?E1" using s by (rule snap_cx_cy)
  then show "\<exists>E'. editorMoveCursor ARROW_DOWN E = Some E'
            \<and> cy E' = (if cx E < numrows E then cy E + 1 else cy E)"
    using s by (simp add: editorMoveCursor_def move_switch_down)
next
  fix E'
  assume a: "editorMoveCursor ARROW_DOWN E = Some E'"
  let ?E1 = "if cx E < numrows E then E\<lparr>cy := cy E + 1\<rparr> else E"
  have "snap_cx ?E1 = Some E'"
    using a by (simp add: editorMoveCursor_def move_switch_down)
  then have "cy E' = cy ?E1" by (rule snap_cx_cy)
  then show "(cy E' = cy E + 1) = (cx E < numrows E)" by simp
qed

theorem C9_move_down_checks_column_witness:
  "editorMoveCursor ARROW_DOWN (doc2 0 2) = Some (doc2 0 3)
   \<and> editorMoveCursor ARROW_DOWN (doc2 2 0) = Some (doc2 2 0)
   \<and> (\<exists>E'. editorMoveCursor ARROW_DOWN (doc2 0 2) = Some E' \<and> cy E' = 3)
   \<and> (\<exists>E'. editorMoveCursor ARROW_DOWN (doc2 2 0) = Some E' \<and> cy E' = 0)"
proof -
  have a: "editorMoveCursor ARROW_DOWN (doc2 0 2) = Some (doc2 0 3)"
    by (simp add: editorMoveCursor_def move_switch_down snap_cx_def cur_row_size_def row_at_def
        numrows_def doc2_def)
  have b: "editorMoveCursor ARROW_DOWN (doc2 2 0) = Some (doc2 2 0)"
    by (simp add: editorMoveCursor_def move_switch_down snap_cx_def cur_row_size_def row_at_def
        numrows_def doc2_def row_size_def)
  show ?thesis
    using a b C9_move_down_checks_column[of "doc2 0 2"] C9_move_down_checks_column[of "doc2 2 0"]
    by (simp add: doc2_def numrows_def)
qed

text \<open>
  C3, as stated, fails for \<^verbatim>\<open>editorRowInsertChar\<close>: an insertion at column 5 of the
  line \<open>ab\<close> is not a no-op, it appends the byte.
\<close>

theorem C3_counterexample:
  "row_size (row (doc2 0 0) ! 0) < 5
   \<and> editorRowInsertChar 0 5 99 (doc2 0 0)
       = Some ((doc2 0 0)\<lparr>row := [\<lparr>chars = ''abc'', render = ''abc''\<rparr>,
                                   \<lparr>chars = ''cd'', render = ''cd''\<rparr>], dirty := 1\<rparr>)
   \<and> editorRowInsertChar 0 5 99 (doc2 0 0) \<noteq> Some (doc2 0 0)"
  by (simp add: doc2_def editorRowInsertChar_def row_at_def numrows_def row_size_def
      editorUpdateRow_eq renderOf_def Let_def char_of_def)

text \<open>
  C3, amended. \<^verbatim>\<open>editorInsertRow\<close> with \<open>at\<close> outside \<open>[0, numrows]\<close>, \<^verbatim>\<open>editorDelRow\<close>
  with \<open>at\<close> outside \<open>[0, numrows)\<close> and \<^verbatim>\<open>editorRowDelChar\<close> with \<open>at\<close> outside
  \<open>[0, size)\<close> leave the whole editor state unchanged. \<^verbatim>\<open>editorRowInsertChar\<close> with \<open>at\<close>
  outside \<open>[0, size]\<close> is not a no-op: it appends the byte at the end of the line,
  re-renders the line and counts a modification.
\<close>

theorem C3_out_of_range_edits:
  "(at < 0 \<or> at > numrows E \<longrightarrow> editorInsertRow at s E = E)
   \<and> (at < 0 \<or> at \<ge> numrows E \<longrightarrow> editorDelRow at E = E)
   \<and> (0 \<le> ri \<and> ri < numrows E \<and> (at < 0 \<or> at \<ge> row_size (row E ! nat ri)) \<longrightarrow>
        editorRowDelChar ri at E = Some E)
   \<and> (0 \<le> ri \<and> ri < numrows E \<and> (at < 0 \<or> at > row_size (row E ! nat ri)) \<longrightarrow>
        editorRowInsertChar ri at c E =
          Some (E\<lparr>row := (row E)[nat ri :=
                         \<lparr>chars = chars (row E ! nat ri) @ [char_of c],
                          render = renderOf (chars (row E ! nat ri) @ [char_of c])\<rparr>],
                   dirty := dirty E + 1\<rparr>))"
proof (intro conjI impI)
  assume "at < 0 \<or> at > numrows E"
  then show "editorInsertRow at s E = E"
    by (auto simp: editorInsertRow_def)
next
  assume "at < 0 \<or> at \<ge> numrows E"
  then show "editorDelRow at E = E"
    by (auto simp: editorDelRow_def)
next
  assume "0 \<le> ri \<and> ri < numrows E \<and> (at < 0 \<or> at \<ge> row_size (row E ! nat ri))"
  then show "editorRowDelChar ri at E = Some E"
    by (auto simp: editorRowDelChar_def row_at_def)
next
  assume "0 \<le> ri \<and> ri < numrows E \<and> (at < 0 \<or> at > row_size (row E ! nat ri))"
  then show "editorRowInsertChar ri at c E =
          Some (E\<lparr>row := (row E)[nat ri :=
                         \<lparr>chars = chars (row E ! nat ri) @ [char_of c],
                          render = renderOf (chars (row E ! nat ri) @ [char_of c])\<rparr>],
                   dirty := dirty E + 1\<rparr>)"
    by (auto simp: editorRowInsertChar_def row_at_def Let_def editorUpdateRow_eq row_size_def)
qed

theorem C3_out_of_range_edits_witness:
  "editorInsertRow 3 ''x'' (doc2 0 0) = doc2 0 0
   \<and> editorDelRow 2 (doc2 0 0) = doc2 0 0
   \<and> editorRowDelChar 0 2 (doc2 0 0) = Some (doc2 0 0)
   \<and> editorRowInsertChar 0 (- 1) 99 (doc2 0 0)
       = Some ((doc2 0 0)\<lparr>row := [\<lparr>chars = ''abc'', render = ''abc''\<rparr>,
                                   \<lparr>chars = ''cd'', render = ''cd''\<rparr>], dirty := 1\<rparr>)"
  using C3_out_of_range_edits[of 3 "doc2 0 0" "''x''" 0 99, THEN conjunct1]
    C3_out_of_range_edits[of 2 "doc2 0 0" "''x''" 0 99, THEN conjunct2, THEN conjunct1]
    C3_out_of_range_edits[of 2 "doc2 0 0" "''x''" 0 99, THEN conjunct2, THEN conjunct2, THEN conjunct1]
    C3_out_of_range_edits[of "- 1" "doc2 0 0" "''x''" 0 99, THEN conjunct2, THEN conjunct2, THEN conjunct2]
  by (simp add: doc2_def numrows_def row_size_def renderOf_def char_of_def)


text \<open>
  C7, as stated, fails on a terminal of two rows: the window then has no row
  (\<^verbatim>\<open>E.screenrows = 0\<close>), and after \<^verbatim>\<open>editorScroll\<close> the cursor row is not within
  \<open>[rowoff, rowoff + screenrows)\<close>.
\<close>

theorem C7_counterexample:
  "editorScroll (initEditor 2 80) = Some ((initEditor 2 80)\<lparr>rowoff := 1\<rparr>)
   \<and> \<not> (rowoff ((initEditor 2 80)\<lparr>rowoff := 1\<rparr>) \<le> cy ((initEditor 2 80)\<lparr>rowoff := 1\<rparr>)
          \<and> cy ((initEditor 2 80)\<lparr>rowoff := 1\<rparr>)
              < rowoff ((initEditor 2 80)\<lparr>rowoff := 1\<rparr>)
                + screenrows ((initEditor 2 80)\<lparr>rowoff := 1\<rparr>))"
  by (simp add: editorScroll_def initEditor_def numrows_def)

text \<open>
  C7, amended. Wherever \<^verbatim>\<open>editorScroll\<close> is defined (it is, when the cursor is within
  the document): it is idempotent; it leaves \<open>rowoff\<close> unchanged when the cursor row is
  within \<open>[rowoff, rowoff + screenrows)\<close>, and \<open>coloff\<close> unchanged when the visual column
  is within \<open>[coloff, coloff + screencols)\<close>; after it runs the cursor row is within the
  window when the window has at least one row, and the visual column is within the window
  when the window has at least one column; and with the cursor exactly one row below the
  last visible row it increases \<open>rowoff\<close> by exactly one.
\<close>

theorem C7_scroll:
  "(\<forall>E'. editorScroll E = Some E' \<longrightarrow>
      editorScroll E' = Some E'
      \<and> (rowoff E \<le> cy E \<and> cy E < rowoff E + screenrows E \<longrightarrow> rowoff E' = rowoff E)
      \<and> (coloff E \<le> rx E' \<and> rx E' < coloff E + screencols E \<longrightarrow> coloff E' = coloff E)
      \<and> (0 < screenrows E \<longrightarrow> rowoff E' \<le> cy E' \<and> cy E' < rowoff E' + screenrows E')
      \<and> (0 < screencols E \<longrightarrow> coloff E' \<le> rx E' \<and> rx E' < coloff E' + screencols E')
      \<and> (cy E = rowoff E + screenrows E \<longrightarrow> rowoff E' = rowoff E + 1))
   \<and> (cursor_ok E \<longrightarrow> (\<exists>E'. editorScroll E = Some E'))"
proof (intro conjI allI impI)
  fix E'
  assume s: "editorScroll E = Some E'"
  then obtain x where x: "cursor_rx E = Some x"
    and e: "E' = E\<lparr>rx := x,
                   rowoff := clamp_offset (cy E) (rowoff E) (screenrows E),
                   coloff := clamp_offset x (coloff E) (screencols E)\<rparr>"
    by (auto simp: editorScroll_eq split: option.splits)
  have x': "cursor_rx E' = Some x"
    using x cursor_rx_cong[of E' E] by (simp add: e)
  show "editorScroll E' = Some E'"
    by (simp add: editorScroll_eq x') (simp add: e clamp_offset_idem)
  show "rowoff E' = rowoff E" if "rowoff E \<le> cy E \<and> cy E < rowoff E + screenrows E"
    using that by (simp add: e clamp_offset_visible)
  show "coloff E' = coloff E" if "coloff E \<le> rx E' \<and> rx E' < coloff E + screencols E"
    using that by (simp add: e clamp_offset_visible)
  show "rowoff E' \<le> cy E'" if "0 < screenrows E"
    using clamp_offset_in_view[OF that, of "cy E" "rowoff E"] by (simp add: e)
  show "cy E' < rowoff E' + screenrows E'" if "0 < screenrows E"
    using clamp_offset_in_view[OF that, of "cy E" "rowoff E"] by (simp add: e)
  show "coloff E' \<le> rx E'" if "0 < screencols E"
    using clamp_offset_in_view[OF that, of x "coloff E"] by (simp add: e)
  show "rx E' < coloff E' + screencols E'" if "0 < screencols E"
    using clamp_offset_in_view[OF that, of x "coloff E"] by (simp add: e)
  show "rowoff E' = rowoff E + 1" if "cy E = rowoff E + screenrows E"
    using that by (simp add: e clamp_offset_next)
next
  assume "cursor_ok E"
  then obtain x where "cursor_rx E = Some x"
    using cursor_rx_defined by blast
  then show "\<exists>E'. editorScroll E = Some E'"
    by (simp add: editorScroll_eq)
qed

theorem C7_scroll_witness:
  "cursor_ok (tab_doc 1 2)
   \<and> editorScroll (tab_doc 0 0) = Some (tab_doc 0 0)
   \<and> editorScroll (tab_doc 1 2) = Some ((tab_doc 1 2)\<lparr>rx := 1, rowoff := 1\<rparr>)
   \<and> editorScroll ((tab_doc 1 2)\<lparr>rx := 1, rowoff := 1\<rparr>) = Some ((tab_doc 1 2)\<lparr>rx := 1, rowoff := 1\<rparr>)
   \<and> editorScroll (tab_doc 1 0) = Some ((tab_doc 1 0)\<lparr>rx := 8, coloff := 5\<rparr>)"
proof -
  have c: "cursor_ok (tab_doc 1 2)"
    by (simp add: cursor_ok_def tab_doc_def numrows_def row_size_def)
  have a: "editorScroll (tab_doc 0 0) = Some (tab_doc 0 0)"
    by code_simp
  have b: "editorScroll (tab_doc 1 2) = Some ((tab_doc 1 2)\<lparr>rx := 1, rowoff := 1\<rparr>)"
    by code_simp
  have d: "editorScroll (tab_doc 1 0) = Some ((tab_doc 1 0)\<lparr>rx := 8, coloff := 5\<rparr>)"
    by code_simp
  have i: "editorScroll ((tab_doc 1 2)\<lparr>rx := 1, rowoff := 1\<rparr>)
      = Some ((tab_doc 1 2)\<lparr>rx := 1, rowoff := 1\<rparr>)"
    using C7_scroll[of "tab_doc 1 2"] b by blast
  show ?thesis using a b c d i by simp
qed


text \<open>
  C4. \<^verbatim>\<open>editorReadKey\<close> decodes every sequence of the table (\<open>ESC [ d ~\<close> with \<open>d\<close> = 1 or 7
  to Home, 3 to Delete, 4 or 8 to End, 5 to PageUp, 6 to PageDown; \<open>ESC [ A/B/C/D\<close> to
  Up/Down/Right/Left; \<open>ESC [ H\<close>, \<open>ESC O H\<close> to Home; \<open>ESC [ F\<close>, \<open>ESC O F\<close> to End) to its
  key; it returns a byte other than \<open>ESC\<close> as it is; after \<open>ESC\<close>, an input that starts with
  no sequence of the table (another sequence, or one cut by a timeout or a failed read)
  gives the key \<open>ESC\<close>; once a byte has arrived it always returns a key; and it waits
  through timeouts and \<^verbatim>\<open>EAGAIN\<close> before the first byte.
\<close>

theorem C4_key_decoder:
  "(\<forall>(seq, k) \<in> set escape_table.
      editorReadKey (Byte CHR 0x1B # map Byte seq @ rest) = Returns (k, rest))
   \<and> (c \<noteq> CHR 0x1B \<longrightarrow> editorReadKey (Byte c # rest) = Returns (char_to_int c, rest))
   \<and> ((\<forall>(seq, k) \<in> set escape_table. \<not> prefix (map Byte seq) inp) \<longrightarrow>
        (\<exists>rest'. editorReadKey (Byte CHR 0x1B # inp) = Returns (ESC, rest')))
   \<and> (\<exists>k rest'. editorReadKey (Byte c # inp) = Returns (k, rest'))
   \<and> editorReadKey (Timeout # inp) = editorReadKey inp
   \<and> editorReadKey (Error True # inp) = editorReadKey inp"
proof (intro conjI impI)
  show "\<forall>(seq, k) \<in> set escape_table.
      editorReadKey (Byte CHR 0x1B # map Byte seq @ rest) = Returns (k, rest)"
    by (rule editorReadKey_table)
next
  assume "c \<noteq> CHR 0x1B"
  then show "editorReadKey (Byte c # rest) = Returns (char_to_int c, rest)"
    by (rule editorReadKey_literal)
next
  assume "\<forall>(seq, k) \<in> set escape_table. \<not> prefix (map Byte seq) inp"
  then have "fst (read_escape inp) = ESC"
    by (rule not_in_table)
  then have "editorReadKey (Byte CHR 0x1B # inp) = Returns (ESC, snd (read_escape inp))"
    by (simp add: editorReadKey_escape prod_eq_iff)
  then show "\<exists>rest'. editorReadKey (Byte CHR 0x1B # inp) = Returns (ESC, rest')"
    by blast
next
  show "\<exists>k rest'. editorReadKey (Byte c # inp) = Returns (k, rest')"
    by (cases "c = CHR 0x1B") (auto simp: editorReadKey_def)
next
  show "editorReadKey (Timeout # inp) = editorReadKey inp"
    by (rule editorReadKey_wait)
next
  show "editorReadKey (Error True # inp) = editorReadKey inp"
    by (rule editorReadKey_wait)
qed

theorem C4_key_decoder_witness:
  "editorReadKey [Byte CHR 0x1B, Byte CHR ''['', Byte CHR ''3'', Byte CHR ''~''] = Returns (DEL_KEY, [])
   \<and> editorReadKey [Byte CHR ''x''] = Returns (120, [])
   \<and> (\<exists>rest'. editorReadKey [Byte CHR 0x1B, Byte CHR ''[''] = Returns (ESC, rest'))
   \<and> (\<exists>rest'. editorReadKey [Byte CHR 0x1B, Byte CHR ''['', Byte CHR ''2'', Byte CHR ''~'']
                 = Returns (ESC, rest'))"
proof -
  have a: "editorReadKey [Byte CHR 0x1B, Byte CHR ''['', Byte CHR ''3'', Byte CHR ''~'']
      = Returns (DEL_KEY, [])"
    using C4_key_decoder[of "[]" "CHR ''x''" "[]", THEN conjunct1]
    by (simp add: escape_table_def)
  have b: "editorReadKey [Byte CHR ''x''] = Returns (120, [])"
    using C4_key_decoder[of "[]" "CHR ''x''" "[]", THEN conjunct2, THEN conjunct1]
    by (simp add: char_to_int_def)
  have c: "\<exists>rest'. editorReadKey [Byte CHR 0x1B, Byte CHR ''[''] = Returns (ESC, rest')"
    using C4_key_decoder[of "[]" "CHR ''x''" "[Byte CHR ''['']",
        THEN conjunct2, THEN conjunct2, THEN conjunct1]
    by (simp add: escape_table_def)
  have d: "\<exists>rest'. editorReadKey [Byte CHR 0x1B, Byte CHR ''['', Byte CHR ''2'', Byte CHR ''~'']
                 = Returns (ESC, rest')"
    using C4_key_decoder[of "[]" "CHR ''x''" "[Byte CHR ''['', Byte CHR ''2'', Byte CHR ''~'']",
        THEN conjunct2, THEN conjunct2, THEN conjunct1]
    by (simp add: escape_table_def)
  show ?thesis using a b c d by blast
qed


text \<open>
  C8, as stated, fails for a file whose line ends in a carriage return before its single
  newline: loading the four bytes \<open>a b CR LF\<close> and saving gives the three bytes \<open>a b LF\<close>.
\<close>

theorem C8_counterexample:
  "editorOpen ''f'' (Some [CHR ''a'', CHR ''b'', CHR 0x0D, CHR 0x0A]) (initEditor 24 80)
     = Returns ((initEditor 24 80)\<lparr>row := [\<lparr>chars = ''ab'', render = ''ab''\<rparr>],
                                    filename := Some ''f''\<rparr>)
   \<and> fst (editorRowsToString ((initEditor 24 80)\<lparr>row := [\<lparr>chars = ''ab'', render = ''ab''\<rparr>],
                                                  filename := Some ''f''\<rparr>))
     = [CHR ''a'', CHR ''b'', CHR 0x0A]
   \<and> [CHR ''a'', CHR ''b'', CHR 0x0A] \<noteq> [CHR ''a'', CHR ''b'', CHR 0x0D, CHR 0x0A]"
  by (simp add: editorOpen_def initEditor_def editorInsertRow_append strip_eol.simps
      editorUpdateRow_eq renderOf_def editorRowsToString_eq join_lines_def Let_def)

text \<open>
  C8, amended. \<^verbatim>\<open>editorRowsToString\<close> produces every line followed by a newline, and
  the length of that; and loading a file in which every line ends in a single newline and
  no line has a carriage return just before its newline, then saving, reproduces the bytes
  of the file (\<^verbatim>\<open>editorOpen\<close> strips every trailing \<open>\r\<close> and \<open>\n\<close> of a line, and saving
  writes \<open>\n\<close> alone).
\<close>

theorem C8_save_load_round_trip:
  "editorRowsToString E
     = (join_lines (map chars (row E)), int (length (join_lines (map chars (row E)))))
   \<and> ((\<forall>l \<in> set ls. CHR 0x0A \<notin> set l \<and> (l \<noteq> [] \<longrightarrow> last l \<noteq> CHR 0x0D)) \<longrightarrow>
        (\<exists>E'. editorOpen name (Some (join_lines ls)) (initEditor ws_row ws_col) = Returns E'
              \<and> map chars (row E') = ls
              \<and> fst (editorRowsToString E') = join_lines ls))"
proof (intro conjI impI)
  show "editorRowsToString E
     = (join_lines (map chars (row E)), int (length (join_lines (map chars (row E)))))"
    by (rule editorRowsToString_eq)
next
  assume h: "\<forall>l \<in> set ls. CHR 0x0A \<notin> set l \<and> (l \<noteq> [] \<longrightarrow> last l \<noteq> CHR 0x0D)"
  define E' where "E' = (editorOpen_loop (getlines (join_lines ls))
      ((initEditor ws_row ws_col)\<lparr>filename := Some name\<rparr>))\<lparr>dirty := 0\<rparr>"
  have o: "editorOpen name (Some (join_lines ls)) (initEditor ws_row ws_col) = Returns E'"
    by (simp add: editorOpen_def E'_def Let_def)
  have g: "getlines (join_lines ls) = map (\<lambda>l. l @ [CHR 0x0A]) ls"
    using h by (simp add: getlines_join)
  have k: "strip_eol (l @ [CHR 0x0A]) = l" if "l \<in> set ls" for l
  proof -
    have "CHR 0x0A \<notin> set l" "l \<noteq> [] \<longrightarrow> last l \<noteq> CHR 0x0D"
      using h that by blast+
    then have "l = [] \<or> (last l \<noteq> CHR 0x0A \<and> last l \<noteq> CHR 0x0D)"
      using last_in_set[of l] by metis
    then show ?thesis by (rule strip_eol_newline)
  qed
  have s: "map (strip_eol \<circ> (\<lambda>l. l @ [CHR 0x0A])) ls = ls"
    by (rule map_idI) (simp add: k)
  have c: "map chars (row E') = ls"
    by (simp add: E'_def chars_editorOpen_loop g s initEditor_def)
  have "fst (editorRowsToString E') = join_lines ls"
    by (simp add: editorRowsToString_eq c)
  then show "\<exists>E'. editorOpen name (Some (join_lines ls)) (initEditor ws_row ws_col) = Returns E'
              \<and> map chars (row E') = ls
              \<and> fst (editorRowsToString E') = join_lines ls"
    using o c by blast
qed

theorem C8_save_load_round_trip_witness:
  "join_lines [''ab'', ''cd''] = [CHR ''a'', CHR ''b'', CHR 0x0A, CHR ''c'', CHR ''d'', CHR 0x0A]
   \<and> (\<exists>E'. editorOpen ''f'' (Some [CHR ''a'', CHR ''b'', CHR 0x0A, CHR ''c'', CHR ''d'', CHR 0x0A])
               (initEditor 24 80) = Returns E'
          \<and> map chars (row E') = [''ab'', ''cd'']
          \<and> fst (editorRowsToString E')
              = [CHR ''a'', CHR ''b'', CHR 0x0A, CHR ''c'', CHR ''d'', CHR 0x0A])"
proof -
  have j: "join_lines [''ab'', ''cd'']
      = [CHR ''a'', CHR ''b'', CHR 0x0A, CHR ''c'', CHR ''d'', CHR 0x0A]"
    by (simp add: join_lines_def)
  show ?thesis
    using C8_save_load_round_trip[of "initEditor 24 80" "[''ab'', ''cd'']" "''f''" 24 80,
        THEN conjunct2]
    by (simp add: j)
qed


text \<open>
  C2, as stated, fails at the third press: with unsaved changes and the counter at
  \<^verbatim>\<open>KILO_QUIT_TIMES\<close> = 3, after three consecutive presses of Ctrl-Q (the byte \<open>0x11\<close>) the
  process is still running, with the counter at 0.
\<close>

theorem C2_counterexample:
  "dirty dirty_doc \<noteq> 0
   \<and> quit_times dirty_doc = KILO_QUIT_TIMES
   \<and> editorSteps 3 io_ok [Byte CHR 0x11, Byte CHR 0x11, Byte CHR 0x11] dirty_doc
       = Returns ([], dirty_doc\<lparr>statusmsg := MsgQuitWarning 1, quit_times := 0\<rparr>)
   \<and> editorSteps 3 io_ok [Byte CHR 0x11, Byte CHR 0x11, Byte CHR 0x11] dirty_doc \<noteq> Exits 0"
proof -
  have "editorSteps 3 io_ok [Byte CHR 0x11, Byte CHR 0x11, Byte CHR 0x11] dirty_doc
       = Returns ([], dirty_doc\<lparr>statusmsg := MsgQuitWarning 1, quit_times := 0\<rparr>)"
    by code_simp
  then show ?thesis
    by (simp add: dirty_doc_def doc2_def KILO_QUIT_TIMES_def)
qed

text \<open>
  C2, amended. With unsaved changes and the counter at \<^verbatim>\<open>KILO_QUIT_TIMES\<close> = 3, each of
  the first three consecutive presses of Ctrl-Q leaves the process running, shows the
  counter in the warning (3, then 2, then 1) and decrements it; the fourth consecutive
  press terminates the process with status 0; and every other key whose processing
  returns sets the counter back to \<^verbatim>\<open>KILO_QUIT_TIMES\<close>. The turns are those of the main
  loop, \<^verbatim>\<open>editorRefreshScreen\<close> then \<^verbatim>\<open>editorProcessKeypress\<close>.
\<close>

theorem C2_quit_debounce:
  assumes "dirty E \<noteq> 0" and "quit_times E = KILO_QUIT_TIMES"
    and "editorRefreshScreen E = Some E0"
  shows "editorSteps 1 io (Byte CHR 0x11 # rest) E
           = Returns (rest, E0\<lparr>statusmsg := MsgQuitWarning 3, quit_times := 2\<rparr>)
       \<and> editorSteps 2 io (Byte CHR 0x11 # Byte CHR 0x11 # rest) E
           = Returns (rest, E0\<lparr>statusmsg := MsgQuitWarning 2, quit_times := 1\<rparr>)
       \<and> editorSteps 3 io (Byte CHR 0x11 # Byte CHR 0x11 # Byte CHR 0x11 # rest) E
           = Returns (rest, E0\<lparr>statusmsg := MsgQuitWarning 1, quit_times := 0\<rparr>)
       \<and> editorSteps 4 io
             (Byte CHR 0x11 # Byte CHR 0x11 # Byte CHR 0x11 # Byte CHR 0x11 # rest) E
           = Exits 0
       \<and> (\<forall>c inp inp1 inp' E1 E2.
             editorReadKey inp = Returns (c, inp1) \<and> c \<noteq> CTRL_KEY CHR ''q''
             \<and> editorProcessKeypress io inp E1 = Returns (inp', E2)
             \<longrightarrow> quit_times E2 = KILO_QUIT_TIMES)"
proof -
  let ?q = "Byte CHR 0x11"
  let ?W = "\<lambda>m q. E0\<lparr>statusmsg := MsgQuitWarning m, quit_times := q\<rparr>"
  have d0: "dirty E0 = dirty E"
    using assms(3) by (auto simp: editorRefreshScreen_def editorScroll_eq split: option.splits)
  have s1: "editorStep io (?q # inp) E = Returns (inp, ?W 3 2)" for inp
    using editorStep_quit[OF assms(3) assms(1), of io inp] assms(2)
    by (simp add: KILO_QUIT_TIMES_def)
  have s2: "editorStep io (?q # inp) (?W 3 2) = Returns (inp, ?W 2 1)" for inp
    using editorStep_quit[OF refresh_after_warning[OF assms(3), where m = "MsgQuitWarning 3" and q = 2],
        of io inp] assms(1) d0
    by simp
  have s3: "editorStep io (?q # inp) (?W 2 1) = Returns (inp, ?W 1 0)" for inp
    using editorStep_quit[OF refresh_after_warning[OF assms(3), where m = "MsgQuitWarning 2" and q = 1],
        of io inp] assms(1) d0
    by simp
  have s4: "editorStep io (?q # inp) (?W 1 0) = Exits 0" for inp
    using editorStep_quit_exit[OF refresh_after_warning[OF assms(3), where m = "MsgQuitWarning 1" and q = 0],
        of io inp]
    by simp
  have a: "editorSteps 1 io (?q # rest) E = Returns (rest, ?W 3 2)"
    by (simp add: s1)
  have b: "editorSteps 2 io (?q # ?q # rest) E = Returns (rest, ?W 2 1)"
    by (simp add: eval_nat_numeral s1 s2)
  have c: "editorSteps 3 io (?q # ?q # ?q # rest) E = Returns (rest, ?W 1 0)"
    by (simp add: eval_nat_numeral s1 s2 s3)
  have d: "editorSteps 4 io (?q # ?q # ?q # ?q # rest) E = Exits 0"
    by (simp add: eval_nat_numeral s1 s2 s3 s4)
  have e: "quit_times E2 = KILO_QUIT_TIMES"
    if "editorReadKey inp = Returns (c, inp1) \<and> c \<noteq> CTRL_KEY CHR ''q''
        \<and> editorProcessKeypress io inp E1 = Returns (inp', E2)"
    for c inp inp1 inp' E1 E2
  proof -
    from that have k: "editorReadKey inp = Returns (c, inp1)"
      and p: "editorProcessKeypress io inp E1 = Returns (inp', E2)"
      by simp_all
    have "editorProcessKey io c inp1 E1 = Returns (inp', E2)"
      using p by (simp add: editorProcessKeypress_def k)
    then show ?thesis
      using that editorProcessKey_resets by blast
  qed
  show ?thesis
    using a b c d e by blast
qed

theorem C2_quit_debounce_witness:
  "dirty dirty_doc \<noteq> 0
   \<and> quit_times dirty_doc = KILO_QUIT_TIMES
   \<and> editorRefreshScreen dirty_doc = Some dirty_doc
   \<and> editorSteps 2 io_ok [Byte CHR 0x11, Byte CHR 0x11] dirty_doc
       = Returns ([], dirty_doc\<lparr>statusmsg := MsgQuitWarning 2, quit_times := 1\<rparr>)
   \<and> editorSteps 4 io_ok [Byte CHR 0x11, Byte CHR 0x11, Byte CHR 0x11, Byte CHR 0x11] dirty_doc
       = Exits 0
   \<and> editorSteps 3 io_ok [Byte CHR 0x11, Byte CHR 0x11, Byte CHR ''x''] dirty_doc
       = Returns ([], dirty_doc\<lparr>row := [\<lparr>chars = ''xab'', render = ''xab''\<rparr>,
                                          \<lparr>chars = ''cd'', render = ''cd''\<rparr>],
                                  cx := 1, dirty := 2, statusmsg := MsgQuitWarning 2\<rparr>)"
proof -
  have d: "dirty dirty_doc \<noteq> 0"
    by (simp add: dirty_doc_def)
  have q: "quit_times dirty_doc = KILO_QUIT_TIMES"
    by (simp add: dirty_doc_def doc2_def KILO_QUIT_TIMES_def)
  have r: "editorRefreshScreen dirty_doc = Some dirty_doc"
    by code_simp
  have x: "editorSteps 3 io_ok [Byte CHR 0x11, Byte CHR 0x11, Byte CHR ''x''] dirty_doc
       = Returns ([], dirty_doc\<lparr>row := [\<lparr>chars = ''xab'', render = ''xab''\<rparr>,
                                          \<lparr>chars = ''cd'', render = ''cd''\<rparr>],
                                  cx := 1, dirty := 2, statusmsg := MsgQuitWarning 2\<rparr>)"
    by code_simp
  show ?thesis
    using d q r x C2_quit_debounce[OF d q r, of io_ok "[]"]
    by simp
qed


end
